theory Spec2Isabelle
  imports Complex_Main "HOL-Library.AList" "HOL-Library.Sublist"
begin

section \<open>Python values shared by the components\<close>

text \<open>
  The exceptions the modelled code can raise. \<open>SystemExit\<close> is what \<^verbatim>\<open>sys.exit(1)\<close>
  raises. A method that mutates its object and then raises leaves the object as far as it
  got, so the outcome of a method keeps the state in both cases.
\<close>

datatype py_error =
  KeyError | IndexError | ZeroDivisionError | TypeError | AttributeError | SystemExit

datatype 's outcome = Done 's | Raise py_error 's

text \<open>
  Python's \<^verbatim>\<open>round(x)\<close> on a float: to the nearest integer, a tie to the even one.
  Floats are idealised as reals throughout.
\<close>

definition py_round :: "real \<Rightarrow> int" where
  "py_round x =
     (let f = \<lfloor>x\<rfloor>; d = x - of_int f in
      if d < 1 / 2 then f else if 1 / 2 < d then f + 1 else if even f then f else f + 1)"

section \<open>HostMetrics (coresidency\_detector.py, lines 176--305)\<close>

text \<open>
  A dictionary is an association list in insertion order (keys distinct);
  \<open>AList.update\<close> is Python's \<^verbatim>\<open>d[k] = v\<close>. The two dictionaries of a host map a
  metric name to a deque object. \<^verbatim>\<open>record_sample\<close> stores the \<^emph>\<open>same\<close> deque under
  \<^verbatim>\<open>'Activity'\<close> in both dictionaries, so deques live in a store (\<open>deques\<close>, indexed
  by reference) and the dictionaries hold references.
\<close>

type_synonym deque = "real list"
type_synonym ref = nat
type_synonym sample = "(string \<times> real) list"

record HostMetrics =
  deques :: "deque list"
  metrics :: "(string \<times> ref) list"
  normalized_metrics :: "(string \<times> ref) list"
  max_samples :: int
  current_samples :: int
  activity_threshold :: int
  inactivity_threshold :: int
  pref_normalized :: bool
  deltas :: "(string \<times> real) list"
  active :: bool

text \<open>\<^verbatim>\<open>deque.popleft()\<close> raises IndexError on an empty deque.\<close>

definition popleft :: "ref \<Rightarrow> HostMetrics \<Rightarrow> HostMetrics outcome" where
  "popleft r h =
     (case deques h ! r of
        [] \<Rightarrow> Raise IndexError h
      | x # xs \<Rightarrow> Done (h\<lparr>deques := (deques h)[r := xs]\<rparr>))"

definition append_deque :: "ref \<Rightarrow> real \<Rightarrow> HostMetrics \<Rightarrow> HostMetrics" where
  "append_deque r v h = h\<lparr>deques := (deques h)[r := deques h ! r @ [v]]\<rparr>"

text \<open>The contents of the sequences of a metric, read through the references.\<close>

definition raw :: "HostMetrics \<Rightarrow> string \<Rightarrow> deque option" where
  "raw h m = map_option (\<lambda>r. deques h ! r) (map_of (metrics h) m)"

definition normalized :: "HostMetrics \<Rightarrow> string \<Rightarrow> deque option" where
  "normalized h m = map_option (\<lambda>r. deques h ! r) (map_of (normalized_metrics h) m)"

text \<open>
  ``Adjust activity status'' (lines 214--218 of the constructor, 239--243 of
  \<^verbatim>\<open>record_sample\<close>; the same four lines).
\<close>

definition adjust_activity :: "HostMetrics \<Rightarrow> HostMetrics outcome" where
  "adjust_activity h =
     (case map_of (metrics h) ''Activity'' of
        None \<Rightarrow> Raise KeyError h
      | Some r \<Rightarrow>
          if of_int (activity_threshold h) < sum_list (deques h ! r) then Done (h\<lparr>active := True\<rparr>)
          else if sum_list (deques h ! r) < of_int (inactivity_threshold h)
               then Done (h\<lparr>active := False\<rparr>)
          else Done h)"

text \<open>The constructor's loop (lines 207--212): two fresh one-element deques per metric.\<close>

fun seed_items :: "sample \<Rightarrow> HostMetrics \<Rightarrow> HostMetrics" where
  "seed_items [] h = h"
| "seed_items ((key, v) # rest) h =
     (let r1 = length (deques h);
          h1 = h\<lparr>deques := deques h @ [[v]], metrics := AList.update key r1 (metrics h)\<rparr>;
          r2 = length (deques h1);
          h2 = h1\<lparr>deques := deques h1 @ [[v]],
                  normalized_metrics := AList.update key r2 (normalized_metrics h1)\<rparr>
      in seed_items rest h2)"

text \<open>
  \<^verbatim>\<open>HostMetrics.__init__\<close>. A constructor that raises yields no object.
\<close>

definition HostMetrics_init :: "sample \<Rightarrow> int \<Rightarrow> int \<Rightarrow> int \<Rightarrow> bool \<Rightarrow> py_error + HostMetrics" where
  "HostMetrics_init initial_metrics max_s act inact pref =
     (let h0 = \<lparr>deques = [], metrics = [], normalized_metrics = [],
                max_samples = max_s, current_samples = 1,
                activity_threshold = (if 0 < act then act else max_s - 1),
                inactivity_threshold = (if 0 < inact then inact else 1),
                pref_normalized = pref, deltas = [], active = False\<rparr>
      in if map_of initial_metrics ''Activity'' = None then Inl SystemExit
         else (case adjust_activity (seed_items initial_metrics h0) of
                 Done h \<Rightarrow> Inr h
               | Raise e h \<Rightarrow> Inl e))"

text \<open>
  \<^verbatim>\<open>self.__metrics[key].popleft(); self.__normalized_metrics[key].popleft()\<close> for each
  key in turn: the body of the first loop of \<^verbatim>\<open>record_sample\<close> (lines 225--227, over
  the keys of the sample) and of the inner loop of \<^verbatim>\<open>__adjust_sample_size\<close>
  (lines 302--304, over the keys of \<^verbatim>\<open>self.__metrics\<close>).
\<close>

fun popleft_keys :: "string list \<Rightarrow> HostMetrics \<Rightarrow> HostMetrics outcome" where
  "popleft_keys [] h = Done h"
| "popleft_keys (key # rest) h =
     (case map_of (metrics h) key of
        None \<Rightarrow> Raise KeyError h
      | Some r \<Rightarrow>
          (case popleft r h of
             Raise e h1 \<Rightarrow> Raise e h1
           | Done h1 \<Rightarrow>
               (case map_of (normalized_metrics h1) key of
                  None \<Rightarrow> Raise KeyError h1
                | Some rn \<Rightarrow>
                    (case popleft rn h1 of
                       Raise e h2 \<Rightarrow> Raise e h2
                     | Done h2 \<Rightarrow> popleft_keys rest h2))))"

text \<open>
  The second loop of \<^verbatim>\<open>record_sample\<close> (lines 231--234). \<^verbatim>\<open>self.__metrics[key][-2]\<close> raises IndexError
  when the raw deque holds fewer than two entries after the append.
\<close>

fun append_items :: "sample \<Rightarrow> HostMetrics \<Rightarrow> HostMetrics outcome" where
  "append_items [] h = Done h"
| "append_items ((key, v) # rest) h =
     (case map_of (metrics h) key of
        None \<Rightarrow> Raise KeyError h
      | Some r \<Rightarrow>
          (let h1 = append_deque r v h in
           case map_of (normalized_metrics h1) key of
             None \<Rightarrow> Raise KeyError h1
           | Some rn \<Rightarrow>
               (let m = deques h1 ! r in
                if length m < 2 then Raise IndexError h1
                else append_items rest (append_deque rn (last m - last (butlast m)) h1))))"

definition record_sample :: "HostMetrics \<Rightarrow> sample \<Rightarrow> HostMetrics outcome" where
  "record_sample h sample_metrics =
     (case (if current_samples h = max_samples h then popleft_keys (map fst sample_metrics) h
            else Done (h\<lparr>current_samples := current_samples h + 1\<rparr>)) of
        Raise e h1 \<Rightarrow> Raise e h1
      | Done h1 \<Rightarrow>
          (case append_items sample_metrics h1 of
             Raise e h2 \<Rightarrow> Raise e h2
           | Done h2 \<Rightarrow>
               (case map_of (metrics h2) ''Activity'' of
                  None \<Rightarrow> Raise KeyError h2
                | Some r \<Rightarrow>
                    adjust_activity
                      (h2\<lparr>normalized_metrics :=
                            AList.update ''Activity'' r (normalized_metrics h2)\<rparr>))))"

text \<open>
  \<^verbatim>\<open>get_metrics\<close> (lines 245--258): the rounded window average of each metric, over the
  sequence chosen by \<^verbatim>\<open>pref_normalized\<close>, divided by \<^verbatim>\<open>current_samples\<close>.
\<close>

fun report_items :: "string list \<Rightarrow> HostMetrics \<Rightarrow> (string \<times> int) list \<Rightarrow> py_error + (string \<times> int) list" where
  "report_items [] h metric_report = Inr metric_report"
| "report_items (key # rest) h metric_report =
     (case map_of (if \<not> pref_normalized h then metrics h else normalized_metrics h) key of
        None \<Rightarrow> Inl KeyError
      | Some r \<Rightarrow>
          if current_samples h = 0 then Inl ZeroDivisionError
          else report_items rest h
                 (AList.update key
                    (py_round (sum_list (deques h ! r) / of_int (current_samples h)))
                    metric_report))"

definition get_metrics :: "HostMetrics \<Rightarrow> py_error + (string \<times> int) list" where
  "get_metrics h = report_items (map fst (metrics h)) h []"

text \<open>
  \<^verbatim>\<open>update_deltas\<close> (lines 285--293). \<^verbatim>\<open>global_metrics[key]\<close> raises KeyError for a
  metric the baseline lacks, and the division raises ZeroDivisionError when the baseline
  value is zero; the source guards neither.
\<close>

fun delta_items :: "(string \<times> int) list \<Rightarrow> (string \<times> real) list \<Rightarrow> HostMetrics \<Rightarrow> HostMetrics outcome" where
  "delta_items [] g h = Done h"
| "delta_items ((key, v) # rest) g h =
     (case map_of g key of
        None \<Rightarrow> Raise KeyError h
      | Some gv \<Rightarrow>
          if gv = 0 then Raise ZeroDivisionError h
          else delta_items rest g
                 (h\<lparr>deltas := AList.update key \<bar>1 - of_int v / gv\<bar> (deltas h)\<rparr>))"

definition update_deltas :: "HostMetrics \<Rightarrow> (string \<times> real) list \<Rightarrow> HostMetrics outcome" where
  "update_deltas h g =
     (case get_metrics h of
        Inl e \<Rightarrow> Raise e h
      | Inr metric_report \<Rightarrow> delta_items metric_report g h)"

text \<open>
  \<^verbatim>\<open>__adjust_sample_size\<close> (lines 295--305): \<^verbatim>\<open>range(old - new)\<close> rounds of
  \<^verbatim>\<open>popleft\<close> over every metric, then the new capacity is stored.
  \<^verbatim>\<open>current_samples\<close> is not touched.
\<close>

fun popleft_rounds :: "nat \<Rightarrow> HostMetrics \<Rightarrow> HostMetrics outcome" where
  "popleft_rounds 0 h = Done h"
| "popleft_rounds (Suc n) h =
     (case popleft_keys (map fst (metrics h)) h of
        Raise e h1 \<Rightarrow> Raise e h1
      | Done h1 \<Rightarrow> popleft_rounds n h1)"

definition adjust_sample_size :: "HostMetrics \<Rightarrow> int \<Rightarrow> HostMetrics outcome" where
  "adjust_sample_size h new_max_samples =
     (case (if new_max_samples < max_samples h
            then popleft_rounds (nat (max_samples h - new_max_samples)) h
            else Done h) of
        Raise e h1 \<Rightarrow> Raise e h1
      | Done h1 \<Rightarrow> Done (h1\<lparr>max_samples := new_max_samples\<rparr>))"

definition reconfigure :: "HostMetrics \<Rightarrow> int \<Rightarrow> int \<Rightarrow> int \<Rightarrow> bool \<Rightarrow> HostMetrics outcome" where
  "reconfigure h new_max_samples new_activity_threshold new_inactivity_threshold new_pref_normalized =
     adjust_sample_size
       (h\<lparr>activity_threshold := new_activity_threshold,
          inactivity_threshold := new_inactivity_threshold,
          pref_normalized := new_pref_normalized\<rparr>)
       new_max_samples"

section \<open>CoResidencyDetector (coresidency\_detector.py, lines 15--174)\<close>

text \<open>
  The detector reads fixed keys of the configuration view, so the view is a record of
  them; \<^verbatim>\<open>Mitigation\<close> is \<^verbatim>\<open>None\<close> or the two limits. Calls of
  \<^verbatim>\<open>event_manager.emit(topic, host_id)\<close> are logged in \<open>emitted\<close>, oldest first; the
  subscribers are outside the detector.
\<close>

type_synonym host_id = string

record Mitigation_cfg =
  FlagsBeforeActivation :: int
  DeflagsBeforeDeactivation :: int

record EventNames_cfg =
  ConfigurationReloaded :: string
  SampleEvent :: string
  StartMitigation :: string
  StopMitigation :: string

record Configuration =
  Mitigation :: "Mitigation_cfg option"
  Thresholds :: "(string \<times> real) list"
  MaxSamples :: int
  SamplesBeforeInclusion :: int
  SamplesBeforeExclusion :: int
  NormalizeSamples :: bool
  EventNames :: EventNames_cfg

record Detector =
  configuration :: Configuration
  host_metrics :: "(host_id \<times> HostMetrics) list"
  host_flags :: "(host_id \<times> int) list"
  host_deflags :: "(host_id \<times> int) list"
  global_metrics :: "(string \<times> real) list"
  mitigated_host_ids :: "host_id set"
  emitted :: "(string \<times> host_id) list"

definition CoResidencyDetector_init :: "Configuration \<Rightarrow> Detector" where
  "CoResidencyDetector_init cfg =
     \<lparr>configuration = cfg, host_metrics = [], host_flags = [], host_deflags = [],
      global_metrics = [], mitigated_host_ids = {}, emitted = []\<rparr>"

text \<open>
  Phase (a), lines 73--83. The \<^verbatim>\<open>except KeyError\<close> catches both the lookup of an
  untracked host and a KeyError raised inside \<^verbatim>\<open>record_sample\<close>; any other exception
  leaves the handler with the host as far as \<^verbatim>\<open>record_sample\<close> got.
\<close>

definition new_host :: "host_id \<Rightarrow> sample \<Rightarrow> Detector \<Rightarrow> Detector outcome" where
  "new_host host_id s d =
     (case HostMetrics_init s (MaxSamples (configuration d))
             (SamplesBeforeInclusion (configuration d))
             (SamplesBeforeExclusion (configuration d))
             (NormalizeSamples (configuration d)) of
        Inl e \<Rightarrow> Raise e d
      | Inr h \<Rightarrow> Done (d\<lparr>host_metrics := AList.update host_id h (host_metrics d)\<rparr>))"

definition record_host :: "host_id \<Rightarrow> sample \<Rightarrow> Detector \<Rightarrow> Detector outcome" where
  "record_host host_id s d =
     (case map_of (host_metrics d) host_id of
        None \<Rightarrow> new_host host_id s d
      | Some h \<Rightarrow>
          (case record_sample h s of
             Done h1 \<Rightarrow> Done (d\<lparr>host_metrics := AList.update host_id h1 (host_metrics d)\<rparr>)
           | Raise e h1 \<Rightarrow>
               (let d1 = d\<lparr>host_metrics := AList.update host_id h1 (host_metrics d)\<rparr>
                in if e = KeyError then new_host host_id s d1 else Raise e d1)))"

fun record_hosts :: "(host_id \<times> sample) list \<Rightarrow> Detector \<Rightarrow> Detector outcome" where
  "record_hosts [] d = Done d"
| "record_hosts ((host_id, s) # rest) d =
     (case record_host host_id s d of
        Raise e d1 \<Rightarrow> Raise e d1
      | Done d1 \<Rightarrow> record_hosts rest d1)"

text \<open>Phase (b), \<^verbatim>\<open>__update_global_metrics\<close> (lines 142--166).\<close>

fun add_report :: "(string \<times> int) list \<Rightarrow> (string \<times> real) list \<Rightarrow> (string \<times> real) list" where
  "add_report [] g = g"
| "add_report ((key, v) # rest) g =
     add_report rest
       (case map_of g key of
          Some x \<Rightarrow> AList.update key (x + of_int v) g
        | None \<Rightarrow> AList.update key (of_int v) g)"

fun sum_benign :: "(host_id \<times> HostMetrics) list \<Rightarrow> host_id set \<Rightarrow> (string \<times> real) list \<times> nat
     \<Rightarrow> ((string \<times> real) list \<times> nat) outcome" where
  "sum_benign [] mitigated acc = Done acc"
| "sum_benign ((host_id, h) # rest) mitigated (g, benign_hosts) =
     (if host_id \<in> mitigated \<or> \<not> active h then sum_benign rest mitigated (g, benign_hosts)
      else (case get_metrics h of
              Inl e \<Rightarrow> Raise e (g, benign_hosts)
            | Inr metric_report \<Rightarrow>
                sum_benign rest mitigated (add_report metric_report g, benign_hosts + 1)))"

definition update_global_metrics :: "Detector \<Rightarrow> Detector outcome" where
  "update_global_metrics d =
     (case sum_benign (host_metrics d) (mitigated_host_ids d) ([], 0) of
        Raise e (g, benign_hosts) \<Rightarrow> Raise e (d\<lparr>global_metrics := g\<rparr>)
      | Done (g, benign_hosts) \<Rightarrow>
          Done (d\<lparr>global_metrics :=
                    (if benign_hosts \<noteq> 0 then map (\<lambda>(key, x). (key, x / real benign_hosts)) g
                     else g)\<rparr>))"

text \<open>Phase (c), \<^verbatim>\<open>__update_host_deltas\<close> (lines 168--174).\<close>

fun deltas_each :: "(string \<times> real) list \<Rightarrow> (host_id \<times> HostMetrics) list
     \<Rightarrow> (host_id \<times> HostMetrics) list outcome" where
  "deltas_each g [] = Done []"
| "deltas_each g ((host_id, h) # rest) =
     (if \<not> active h then
        (case deltas_each g rest of
           Raise e rest1 \<Rightarrow> Raise e ((host_id, h) # rest1)
         | Done rest1 \<Rightarrow> Done ((host_id, h) # rest1))
      else
        (case update_deltas h g of
           Raise e h1 \<Rightarrow> Raise e ((host_id, h1) # rest)
         | Done h1 \<Rightarrow>
             (case deltas_each g rest of
                Raise e rest1 \<Rightarrow> Raise e ((host_id, h1) # rest1)
              | Done rest1 \<Rightarrow> Done ((host_id, h1) # rest1))))"

definition update_host_deltas :: "Detector \<Rightarrow> Detector outcome" where
  "update_host_deltas d =
     (case deltas_each (global_metrics d) (host_metrics d) of
        Raise e hs \<Rightarrow> Raise e (d\<lparr>host_metrics := hs\<rparr>)
      | Done hs \<Rightarrow> Done (d\<lparr>host_metrics := hs\<rparr>))"

text \<open>
  Phase (d), \<^verbatim>\<open>__update_host_flags\<close> (lines 108--140). \<open>trigger_flag\<close> is the inner
  loop with its \<^verbatim>\<open>break\<close>; \<^verbatim>\<open>Thresholds[key]\<close> raises KeyError for a metric without
  a threshold.
\<close>

fun trigger_flag :: "(string \<times> real) list \<Rightarrow> (string \<times> real) list \<Rightarrow> py_error + bool" where
  "trigger_flag [] thresholds = Inr True"
| "trigger_flag ((key, dv) # rest) thresholds =
     (case map_of thresholds key of
        None \<Rightarrow> Inl KeyError
      | Some t \<Rightarrow> if dv \<le> t then Inr False else trigger_flag rest thresholds)"

definition increment :: "host_id \<Rightarrow> (host_id \<times> int) list \<Rightarrow> (host_id \<times> int) list" where
  "increment host_id counters =
     (case map_of counters host_id of
        Some c \<Rightarrow> AList.update host_id (c + 1) counters
      | None \<Rightarrow> AList.update host_id 1 counters)"

definition flag_host :: "host_id \<Rightarrow> bool \<Rightarrow> Detector \<Rightarrow> Detector" where
  "flag_host host_id trigger d =
     (if trigger then
        (if host_id \<in> mitigated_host_ids d
         then d\<lparr>host_deflags := AList.update host_id 0 (host_deflags d)\<rparr>
         else d\<lparr>host_flags := increment host_id (host_flags d)\<rparr>)
      else if host_id \<in> mitigated_host_ids d
           then d\<lparr>host_deflags := increment host_id (host_deflags d)\<rparr>
      else d)"

fun flags_each :: "(host_id \<times> HostMetrics) list \<Rightarrow> Detector \<Rightarrow> Detector outcome" where
  "flags_each [] d = Done d"
| "flags_each ((host_id, h) # rest) d =
     (if \<not> active h then flags_each rest d
      else (case trigger_flag (deltas h) (Thresholds (configuration d)) of
              Inl e \<Rightarrow> Raise e d
            | Inr trigger \<Rightarrow> flags_each rest (flag_host host_id trigger d)))"

definition update_host_flags :: "Detector \<Rightarrow> Detector outcome" where
  "update_host_flags d = flags_each (host_metrics d) d"

text \<open>Phase (e), lines 88--106; the loops run over the items of the two counter dictionaries.\<close>

fun start_mitigation :: "(host_id \<times> int) list \<Rightarrow> int \<Rightarrow> Detector \<Rightarrow> Detector" where
  "start_mitigation [] limit d = d"
| "start_mitigation ((host_id, v) # rest) limit d =
     start_mitigation rest limit
       (if limit < v then
          d\<lparr>mitigated_host_ids := insert host_id (mitigated_host_ids d),
            emitted := emitted d @ [(StartMitigation (EventNames (configuration d)), host_id)],
            host_flags := AList.update host_id 0 (host_flags d)\<rparr>
        else d)"

fun stop_mitigation :: "(host_id \<times> int) list \<Rightarrow> int \<Rightarrow> Detector \<Rightarrow> Detector" where
  "stop_mitigation [] limit d = d"
| "stop_mitigation ((host_id, v) # rest) limit d =
     stop_mitigation rest limit
       (if limit < v then
          d\<lparr>mitigated_host_ids := mitigated_host_ids d - {host_id},
            emitted := emitted d @ [(StopMitigation (EventNames (configuration d)), host_id)],
            host_deflags := AList.update host_id 0 (host_deflags d)\<rparr>
        else d)"

definition dispatch_mitigation :: "Detector \<Rightarrow> Detector" where
  "dispatch_mitigation d =
     (case Mitigation (configuration d) of
        None \<Rightarrow> d
      | Some m \<Rightarrow>
          (let d1 = start_mitigation (host_flags d) (FlagsBeforeActivation m) d
           in stop_mitigation (host_deflags d1) (DeflagsBeforeDeactivation m) d1))"

text \<open>Phases (b)--(e): what \<^verbatim>\<open>__update_metrics\<close> does after its first loop.\<close>

definition after_recording :: "Detector \<Rightarrow> Detector outcome" where
  "after_recording d =
     (case update_global_metrics d of
        Raise e d1 \<Rightarrow> Raise e d1
      | Done d1 \<Rightarrow>
          (case update_host_deltas d1 of
             Raise e d2 \<Rightarrow> Raise e d2
           | Done d2 \<Rightarrow>
               (case update_host_flags d2 of
                  Raise e d3 \<Rightarrow> Raise e d3
                | Done d3 \<Rightarrow> Done (dispatch_mitigation d3))))"

text \<open>\<^verbatim>\<open>__update_metrics\<close>, the handler of a SampleEvent (lines 61--106).\<close>

definition update_metrics :: "Detector \<Rightarrow> (host_id \<times> sample) list \<Rightarrow> Detector outcome" where
  "update_metrics d batch =
     (case record_hosts batch d of
        Raise e d1 \<Rightarrow> Raise e d1
      | Done d1 \<Rightarrow> after_recording d1)"

text \<open>\<^verbatim>\<open>__update_config\<close>, the handler of ConfigurationReloaded (lines 51--59).\<close>

fun reconfigure_each :: "Configuration \<Rightarrow> (host_id \<times> HostMetrics) list
     \<Rightarrow> (host_id \<times> HostMetrics) list outcome" where
  "reconfigure_each cfg [] = Done []"
| "reconfigure_each cfg ((key, h) # rest) =
     (case reconfigure h (MaxSamples cfg) (SamplesBeforeInclusion cfg)
             (SamplesBeforeExclusion cfg) (NormalizeSamples cfg) of
        Raise e h1 \<Rightarrow> Raise e ((key, h1) # rest)
      | Done h1 \<Rightarrow>
          (case reconfigure_each cfg rest of
             Raise e rest1 \<Rightarrow> Raise e ((key, h1) # rest1)
           | Done rest1 \<Rightarrow> Done ((key, h1) # rest1)))"

definition update_config :: "Detector \<Rightarrow> Configuration \<Rightarrow> Detector outcome" where
  "update_config d new_configuration =
     (case reconfigure_each new_configuration (host_metrics d) of
        Raise e hs \<Rightarrow> Raise e (d\<lparr>configuration := new_configuration, host_metrics := hs\<rparr>)
      | Done hs \<Rightarrow> Done (d\<lparr>configuration := new_configuration, host_metrics := hs\<rparr>))"

text \<open>A run of the detector: the events it handles, in order, until one raises.\<close>

datatype event = Sample_event "(host_id \<times> sample) list" | Reload_event Configuration

fun handle :: "Detector \<Rightarrow> event \<Rightarrow> Detector outcome" where
  "handle d (Sample_event batch) = update_metrics d batch"
| "handle d (Reload_event cfg) = update_config d cfg"

fun run :: "Detector \<Rightarrow> event list \<Rightarrow> Detector outcome" where
  "run d [] = Done d"
| "run d (ev # evs) =
     (case handle d ev of
        Raise e d1 \<Rightarrow> Raise e d1
      | Done d1 \<Rightarrow> run d1 evs)"

section \<open>SingletonMeta, EventManager and the construction of the singletons\<close>

text \<open>
  (meta/singleton.py, lines 9--20; event\_manager.py, lines 11--30;
  coresidency\_detector.py, lines 23--49.) A process holds the objects created so far and
  the class attribute \<^verbatim>\<open>SingletonMeta._instances\<close>. An instance is a reference into the
  objects. The event manager keeps its subscriptions in registration order; a handler is a
  bound method of the detector at a reference. The lock is not modelled: constructions
  happen one after the other.
\<close>

datatype class_name = CoResidencyDetector_class | EventManager_class

datatype handler = Update_config ref | Update_metrics ref

datatype object =
    EventManager_object "(string \<times> handler) list"
  | CoResidencyDetector_object ref Detector

datatype ctor_args = No_args | Detector_args Configuration ref

record process =
  instances :: "(class_name \<times> ref) list"
  objects :: "object list"

text \<open>
  \<^verbatim>\<open>EventManager.on\<close> appends the handler to the subscriptions of the topic. An
  object that is not an event manager has no \<^verbatim>\<open>on\<close>.
\<close>

definition EventManager_on :: "ref \<Rightarrow> string \<Rightarrow> handler \<Rightarrow> object list \<Rightarrow> py_error + object list" where
  "EventManager_on em event_name handler_fn objs =
     (if length objs \<le> em then Inl AttributeError
      else (case objs ! em of
              EventManager_object subs \<Rightarrow>
                Inr (objs[em := EventManager_object (subs @ [(event_name, handler_fn)])])
            | CoResidencyDetector_object em1 d \<Rightarrow> Inl AttributeError))"

text \<open>
  \<^verbatim>\<open>super().__call__(*args, **kwargs)\<close>: the class's \<^verbatim>\<open>__init__\<close> on a new object.
  Arguments that do not fit the signature raise TypeError, an event manager argument
  that cannot subscribe raises AttributeError; a construction that raises creates nothing.
\<close>

definition new_object :: "class_name \<Rightarrow> ctor_args \<Rightarrow> object list \<Rightarrow> py_error + ref \<times> object list" where
  "new_object cls args objs =
     (case (cls, args) of
        (EventManager_class, No_args) \<Rightarrow> Inr (length objs, objs @ [EventManager_object []])
      | (EventManager_class, Detector_args cfg em) \<Rightarrow> Inl TypeError
      | (CoResidencyDetector_class, No_args) \<Rightarrow> Inl TypeError
      | (CoResidencyDetector_class, Detector_args cfg em) \<Rightarrow>
          (let self = length objs;
               objs1 = objs @ [CoResidencyDetector_object em (CoResidencyDetector_init cfg)]
           in case EventManager_on em (ConfigurationReloaded (EventNames cfg))
                     (Update_config self) objs1 of
                Inl e \<Rightarrow> Inl e
              | Inr objs2 \<Rightarrow>
                  (case EventManager_on em (SampleEvent (EventNames cfg))
                          (Update_metrics self) objs2 of
                     Inl e \<Rightarrow> Inl e
                   | Inr objs3 \<Rightarrow> Inr (self, objs3))))"

text \<open>\<^verbatim>\<open>SingletonMeta.__call__\<close>.\<close>

definition SingletonMeta_call :: "class_name \<Rightarrow> ctor_args \<Rightarrow> process \<Rightarrow> (py_error + ref) \<times> process" where
  "SingletonMeta_call cls args p =
     (case map_of (instances p) cls of
        Some instance \<Rightarrow> (Inr instance, p)
      | None \<Rightarrow>
          (case new_object cls args (objects p) of
             Inl e \<Rightarrow> (Inl e, p)
           | Inr (instance, objs) \<Rightarrow>
               (Inr instance,
                p\<lparr>instances := AList.update cls instance (instances p), objects := objs\<rparr>)))"

text \<open>A sequence of constructions, each of some class with some arguments.\<close>

fun constructions :: "(class_name \<times> ctor_args) list \<Rightarrow> process \<Rightarrow> (py_error + ref) list \<times> process" where
  "constructions [] p = ([], p)"
| "constructions ((cls, args) # rest) p =
     (case SingletonMeta_call cls args p of
        (r, p1) \<Rightarrow> (case constructions rest p1 of (rs, p2) \<Rightarrow> (r # rs, p2)))"

section \<open>ConfigurationManager (configuration\_manager.py)\<close>

text \<open>
  What \<^verbatim>\<open>json.load\<close> returns, and what the manager builds from it, are dynamically
  typed; \<open>pyval\<close> is the type of both. A dictionary compares its keys structurally
  (the keys of a JSON object are strings).
\<close>

datatype pyval =
    PNone | PBool bool | PInt int | PFloat real | PStr string
  | PList "pyval list" | PDict "(pyval \<times> pyval) list"

type_synonym view = "(pyval \<times> pyval) list"

text \<open>
  What the constructor of \<^verbatim>\<open>JSONParser\<close> finds at the path: a MIME type other than
  JSON or plain text, a file that is not readable, text that is not JSON, or a document.
\<close>

datatype file_state = Bad_mime | Not_readable | Malformed | Loaded pyval

record JSONParser =
  loaded_json :: bool
  config :: pyval

definition JSONParser_init :: "file_state \<Rightarrow> JSONParser" where
  "JSONParser_init fs =
     (case fs of
        Loaded v \<Rightarrow> \<lparr>loaded_json = True, config = v\<rparr>
      | _ \<Rightarrow> \<lparr>loaded_json = False, config = PNone\<rparr>)"

definition bind_err :: "py_error + 'a \<Rightarrow> ('a \<Rightarrow> py_error + 'b) \<Rightarrow> py_error + 'b" where
  "bind_err r f = (case r of Inl e \<Rightarrow> Inl e | Inr v \<Rightarrow> f v)"

text \<open>Python's \<^verbatim>\<open>not v\<close>, \<^verbatim>\<open>c[k]\<close>, \<^verbatim>\<open>c[k] = v\<close> and \<^verbatim>\<open>for key in v\<close>.\<close>

fun py_not :: "pyval \<Rightarrow> bool" where
  "py_not PNone = True"
| "py_not (PBool b) = (\<not> b)"
| "py_not (PInt i) = (i = 0)"
| "py_not (PFloat x) = (x = 0)"
| "py_not (PStr s) = (s = [])"
| "py_not (PList xs) = (xs = [])"
| "py_not (PDict kvs) = (kvs = [])"

definition py_index :: "'a list \<Rightarrow> int \<Rightarrow> py_error + nat" where
  "py_index xs i =
     (let n = int (length xs); j = (if i < 0 then i + n else i)
      in if 0 \<le> j \<and> j < n then Inr (nat j) else Inl IndexError)"

fun unhashable :: "pyval \<Rightarrow> bool" where
  "unhashable (PList xs) = True"
| "unhashable (PDict kvs) = True"
| "unhashable v = False"

fun py_subscript :: "pyval \<Rightarrow> pyval \<Rightarrow> py_error + pyval" where
  "py_subscript (PDict kvs) k =
     (if unhashable k then Inl TypeError
      else (case map_of kvs k of None \<Rightarrow> Inl KeyError | Some v \<Rightarrow> Inr v))"
| "py_subscript (PList xs) (PInt i) = bind_err (py_index xs i) (\<lambda>j. Inr (xs ! j))"
| "py_subscript (PList xs) (PBool b) =
     bind_err (py_index xs (if b then 1 else 0)) (\<lambda>j. Inr (xs ! j))"
| "py_subscript (PStr s) (PInt i) = bind_err (py_index s i) (\<lambda>j. Inr (PStr [s ! j]))"
| "py_subscript (PStr s) (PBool b) =
     bind_err (py_index s (if b then 1 else 0)) (\<lambda>j. Inr (PStr [s ! j]))"
| "py_subscript c k = Inl TypeError"

fun py_setitem :: "pyval \<Rightarrow> pyval \<Rightarrow> pyval \<Rightarrow> py_error + pyval" where
  "py_setitem (PDict kvs) k v =
     (if unhashable k then Inl TypeError else Inr (PDict (AList.update k v kvs)))"
| "py_setitem (PList xs) (PInt i) v = bind_err (py_index xs i) (\<lambda>j. Inr (PList (xs[j := v])))"
| "py_setitem (PList xs) (PBool b) v =
     bind_err (py_index xs (if b then 1 else 0)) (\<lambda>j. Inr (PList (xs[j := v])))"
| "py_setitem c k v = Inl TypeError"

fun py_iter :: "pyval \<Rightarrow> py_error + pyval list" where
  "py_iter (PDict kvs) = Inr (map fst kvs)"
| "py_iter (PList xs) = Inr xs"
| "py_iter (PStr s) = Inr (map (\<lambda>c. PStr [c]) s)"
| "py_iter v = Inl TypeError"

text \<open>
  \<^verbatim>\<open>JSONParser.__getitem__\<close> (lines 126--138): \<^verbatim>\<open>None\<close> when nothing was loaded or
  the name is not in the document. \<^verbatim>\<open>name not in self.__config\<close> is a key test on a
  dictionary, an element test on a list, a substring test on a string, and a TypeError on
  anything else.
\<close>

definition JSONParser_getitem :: "JSONParser \<Rightarrow> string \<Rightarrow> py_error + pyval" where
  "JSONParser_getitem parser name =
     (if \<not> loaded_json parser then Inr PNone
      else (case config parser of
              PDict kvs \<Rightarrow>
                if map_of kvs (PStr name) = None then Inr PNone
                else py_subscript (PDict kvs) (PStr name)
            | PList xs \<Rightarrow>
                if PStr name \<notin> set xs then Inr PNone else py_subscript (PList xs) (PStr name)
            | PStr s \<Rightarrow>
                if \<not> sublist name s then Inr PNone else py_subscript (PStr s) (PStr name)
            | _ \<Rightarrow> Inl TypeError))"

text \<open>\<^verbatim>\<open>parser[section][key]["Value"]\<close>.\<close>

definition section_value :: "JSONParser \<Rightarrow> string \<Rightarrow> pyval \<Rightarrow> py_error + pyval" where
  "section_value parser sect key =
     bind_err (JSONParser_getitem parser sect)
       (\<lambda>c. bind_err (py_subscript c key) (\<lambda>entry. py_subscript entry (PStr ''Value'')))"

text \<open>
  The three loops of \<^verbatim>\<open>__build_configuration\<close> (lines 88--98). The target of the
  assignment is \<^verbatim>\<open>self.__configuration[target][key]\<close> for the thresholds and the event
  names and \<^verbatim>\<open>self.__configuration[key]\<close> for the performance keys.
\<close>

definition assign :: "string option \<Rightarrow> pyval \<Rightarrow> pyval \<Rightarrow> view \<Rightarrow> py_error + view" where
  "assign target key v cfg =
     (case target of
        None \<Rightarrow> bind_err (py_setitem (PDict cfg) key v) (\<lambda>c. Inr (case c of PDict kvs \<Rightarrow> kvs | _ \<Rightarrow> cfg))
      | Some name \<Rightarrow>
          bind_err (py_subscript (PDict cfg) (PStr name))
            (\<lambda>inner. bind_err (py_setitem inner key v)
               (\<lambda>inner1. Inr (AList.update (PStr name) inner1 cfg))))"

fun copy_values :: "string \<Rightarrow> string option \<Rightarrow> pyval list \<Rightarrow> JSONParser \<Rightarrow> view \<Rightarrow> view outcome" where
  "copy_values sect target [] parser cfg = Done cfg"
| "copy_values sect target (key # rest) parser cfg =
     (case section_value parser sect key of
        Inl e \<Rightarrow> Raise e cfg
      | Inr v \<Rightarrow>
          (case assign target key v cfg of
             Inl e \<Rightarrow> Raise e cfg
           | Inr cfg1 \<Rightarrow> copy_values sect target rest parser cfg1))"

definition copy_section :: "string \<Rightarrow> string option \<Rightarrow> JSONParser \<Rightarrow> view \<Rightarrow> view outcome" where
  "copy_section sect target parser cfg =
     (case bind_err (JSONParser_getitem parser sect) py_iter of
        Inl e \<Rightarrow> Raise e cfg
      | Inr keys \<Rightarrow> copy_values sect target keys parser cfg)"

text \<open>The value stored under \<^verbatim>\<open>"Mitigation"\<close> (lines 75--83).\<close>

definition mitigation_view :: "JSONParser \<Rightarrow> py_error + pyval" where
  "mitigation_view parser =
     bind_err (JSONParser_getitem parser ''EnableMitigation'')
       (\<lambda>enable.
          if py_not enable then Inr PNone
          else bind_err
                 (section_value parser ''MitigationConfiguration'' (PStr ''FlagsBeforeActivation''))
                 (\<lambda>flags. bind_err
                    (section_value parser ''MitigationConfiguration''
                       (PStr ''DeflagsBeforeDeactivation''))
                    (\<lambda>deflags. Inr (PDict [(PStr ''FlagsBeforeActivation'', flags),
                                              (PStr ''DeflagsBeforeDeactivation'', deflags)]))))"

record ConfigurationManager =
  config_path :: string
  cm_configuration :: view
  cm_emitted :: "(pyval \<times> view) list"

text \<open>
  \<^verbatim>\<open>__build_configuration\<close> (lines 71--98). The new dictionary is assigned to
  \<^verbatim>\<open>self.__configuration\<close> before the loops run; the source does not ask the parser
  whether it loaded anything.
\<close>

definition build_configuration :: "ConfigurationManager \<Rightarrow> file_state \<Rightarrow> ConfigurationManager outcome" where
  "build_configuration cm fs =
     (let parser = JSONParser_init fs in
      case mitigation_view parser of
        Inl e \<Rightarrow> Raise e cm
      | Inr mitigation \<Rightarrow>
          (let cfg0 = [(PStr ''Mitigation'', mitigation), (PStr ''Thresholds'', PDict []),
                       (PStr ''EventNames'', PDict [])]
           in case copy_section ''Thresholds'' (Some ''Thresholds'') parser cfg0 of
                Raise e cfg1 \<Rightarrow> Raise e (cm\<lparr>cm_configuration := cfg1\<rparr>)
              | Done cfg1 \<Rightarrow>
                  (case copy_section ''Performance'' None parser cfg1 of
                     Raise e cfg2 \<Rightarrow> Raise e (cm\<lparr>cm_configuration := cfg2\<rparr>)
                   | Done cfg2 \<Rightarrow>
                       (case copy_section ''EventNames'' (Some ''EventNames'') parser cfg2 of
                          Raise e cfg3 \<Rightarrow> Raise e (cm\<lparr>cm_configuration := cfg3\<rparr>)
                        | Done cfg3 \<Rightarrow> Done (cm\<lparr>cm_configuration := cfg3\<rparr>)))))"

text \<open>
  The constructor (lines 23--49), with the path already absolute, and \<^verbatim>\<open>on_modified\<close>
  (lines 58--69); \<open>src_path\<close> is \<^verbatim>\<open>abspath(event.src_path)\<close>. The emitted payload is
  the view.
\<close>

definition ConfigurationManager_init :: "string \<Rightarrow> file_state \<Rightarrow> py_error + ConfigurationManager" where
  "ConfigurationManager_init path fs =
     (case build_configuration \<lparr>config_path = path, cm_configuration = [], cm_emitted = []\<rparr> fs of
        Raise e cm \<Rightarrow> Inl e
      | Done cm \<Rightarrow> Inr cm)"

definition on_modified :: "ConfigurationManager \<Rightarrow> string \<Rightarrow> file_state \<Rightarrow> ConfigurationManager outcome" where
  "on_modified cm src_path fs =
     (if src_path = config_path cm then
        (case build_configuration cm fs of
           Raise e cm1 \<Rightarrow> Raise e cm1
         | Done cm1 \<Rightarrow>
             (case bind_err (py_subscript (PDict (cm_configuration cm1)) (PStr ''EventNames''))
                     (\<lambda>names. py_subscript names (PStr ''ConfigurationReloaded'')) of
                Inl e \<Rightarrow> Raise e cm1
              | Inr topic \<Rightarrow>
                  Done (cm1\<lparr>cm_emitted := cm_emitted cm1 @ [(topic, cm_configuration cm1)]\<rparr>)))
      else Done cm)"

section \<open>Observations and example runs\<close>

definition state_of :: "'s outcome \<Rightarrow> 's" where
  "state_of r = (case r of Done s \<Rightarrow> s | Raise e s \<Rightarrow> s)"

definition raised :: "'s outcome \<Rightarrow> py_error option" where
  "raised r = (case r of Done s \<Rightarrow> None | Raise e s \<Rightarrow> Some e)"

text \<open>
  Of a tracked host and a metric: the raw sequence, the normalized sequence,
  \<^verbatim>\<open>current_samples\<close> and \<^verbatim>\<open>max_samples\<close>.
\<close>

definition host_window :: "Detector \<Rightarrow> host_id \<Rightarrow> string
     \<Rightarrow> (deque option \<times> deque option \<times> int \<times> int) option" where
  "host_window d host_id m =
     map_option (\<lambda>h. (raw h m, normalized h m, current_samples h, max_samples h))
       (map_of (host_metrics d) host_id)"

text \<open>The configuration of scenario S1 of the specification.\<close>

definition example_configuration :: Configuration where
  "example_configuration =
     \<lparr>Mitigation = Some \<lparr>FlagsBeforeActivation = 1, DeflagsBeforeDeactivation = 1\<rparr>,
      Thresholds = [(''Activity'', 0), (''Cpu'', 1 / 10)],
      MaxSamples = 3, SamplesBeforeInclusion = 1, SamplesBeforeExclusion = 0,
      NormalizeSamples = False,
      EventNames = \<lparr>ConfigurationReloaded = ''reload'', SampleEvent = ''sample'',
                     StartMitigation = ''start'', StopMitigation = ''stop''\<rparr>\<rparr>"

text \<open>Sample batches: one quiet host, and two hosts that differ in every metric.\<close>

definition quiet_batch :: event where
  "quiet_batch = Sample_event [(''A'', [(''Activity'', 2)])]"

definition two_hosts_batch :: event where
  "two_hosts_batch =
     Sample_event [(''A'', [(''Activity'', 4), (''Cpu'', 100)]),
                   (''B'', [(''Activity'', 2), (''Cpu'', 10)])]"



text \<open>The object a constructor returned, if it returned one.\<close>

definition constructed :: "py_error + 'a \<Rightarrow> 'a option" where
  "constructed r = (case r of Inl e \<Rightarrow> None | Inr x \<Rightarrow> Some x)"

text \<open>
  A configuration document of the shape of section 6 of the specification, the view that
  \<^verbatim>\<open>__build_configuration\<close> assigns before its loops, and a process in which only the
  event manager exists.
\<close>

definition example_document :: pyval where
  "example_document =
     PDict
      [(PStr ''EnableMitigation'', PBool True),
       (PStr ''MitigationConfiguration'',
        PDict [(PStr ''FlagsBeforeActivation'', PDict [(PStr ''Value'', PInt 1)]),
               (PStr ''DeflagsBeforeDeactivation'', PDict [(PStr ''Value'', PInt 1)])]),
       (PStr ''Thresholds'', PDict [(PStr ''Activity'', PDict [(PStr ''Value'', PFloat 0)])]),
       (PStr ''Performance'', PDict [(PStr ''MaxSamples'', PDict [(PStr ''Value'', PInt 3)])]),
       (PStr ''EventNames'',
        PDict [(PStr ''ConfigurationReloaded'', PDict [(PStr ''Value'', PStr ''reload'')])])]"

definition empty_view :: view where
  "empty_view = [(PStr ''Mitigation'', PNone), (PStr ''Thresholds'', PDict []), (PStr ''EventNames'', PDict [])]"

definition started_process :: process where
  "started_process = \<lparr>instances = [(EventManager_class, 0)], objects = [EventManager_object []]\<rparr>"

text \<open>
  What the constructor establishes and every method keeps: the two dictionaries of a host
  have the same keys in the same order, and \<^verbatim>\<open>current_samples\<close> is at least 1.
\<close>

definition host_ok :: "HostMetrics \<Rightarrow> bool" where
  "host_ok h \<longleftrightarrow> map fst (normalized_metrics h) = map fst (metrics h) \<and> 1 \<le> current_samples h"

definition hosts_ok :: "Detector \<Rightarrow> bool" where
  "hosts_ok d = list_all (\<lambda>(host_id, h). host_ok h) (host_metrics d)"





text \<open>The detector after the first batch of the two hosts.\<close>

definition flagged_state :: Detector where
  "flagged_state = state_of (run (CoResidencyDetector_init example_configuration) [two_hosts_batch])"



text \<open>
  Phase (d) in the words of the specification: whether every delta of a host strictly
  exceeds its threshold, the two counters of a host, a counter incremented (1 when absent),
  and the counters a host must have after the phase. \<open>thresholds_cover\<close> says that
  every delta metric of every active host has an entry in the thresholds. The last state
  is the detector after a batch in which host A reports a metric without a threshold.
\<close>

definition all_exceed :: "(string \<times> real) list \<Rightarrow> (string \<times> real) list \<Rightarrow> bool" where
  "all_exceed ds thresholds =
     list_all (\<lambda>(m, v). case map_of thresholds m of Some t \<Rightarrow> t < v | None \<Rightarrow> False) ds"

definition counters :: "Detector \<Rightarrow> host_id \<Rightarrow> int option \<times> int option" where
  "counters d host_id = (map_of (host_flags d) host_id, map_of (host_deflags d) host_id)"

definition bumped :: "int option \<Rightarrow> int option" where
  "bumped c = (case c of None \<Rightarrow> Some 1 | Some n \<Rightarrow> Some (n + 1))"

definition flag_rule :: "host_id \<Rightarrow> HostMetrics \<Rightarrow> Detector \<Rightarrow> int option \<times> int option" where
  "flag_rule host_id h d =
     (let (flags, deflags) = counters d host_id in
      if \<not> active h then (flags, deflags)
      else if all_exceed (deltas h) (Thresholds (configuration d)) then
        (if host_id \<in> mitigated_host_ids d then (flags, Some 0) else (bumped flags, deflags))
      else if host_id \<in> mitigated_host_ids d then (flags, bumped deflags)
      else (flags, deflags))"

definition thresholds_cover :: "Detector \<Rightarrow> bool" where
  "thresholds_cover d =
     list_all (\<lambda>(host_id, h). active h \<longrightarrow>
                 list_all (\<lambda>(m, v). case map_of (Thresholds (configuration d)) m of
                                      None \<Rightarrow> False | Some t \<Rightarrow> True) (deltas h))
       (host_metrics d)"

definition uncovered_state :: Detector where
  "uncovered_state =
     state_of (run (CoResidencyDetector_init (example_configuration\<lparr>Thresholds := [(''Activity'', 0)]\<rparr>))
                 [Sample_event [(''A'', [(''Activity'', 4), (''Cpu'', 100)]),
                                (''B'', [(''Activity'', 2)])]])"

text \<open>The host dictionary has distinct keys.\<close>

definition distinct_hosts :: "Detector \<Rightarrow> bool" where
  "distinct_hosts d = distinct (map fst (host_metrics d))"




section \<open>Evaluating runs\<close>

lemmas host_defs =
  HostMetrics_init_def adjust_activity_def record_sample_def append_deque_def popleft_def
  raw_def normalized_def get_metrics_def update_deltas_def py_round_def reconfigure_def
  adjust_sample_size_def

lemmas detector_defs =
  CoResidencyDetector_init_def update_metrics_def record_host_def new_host_def
  after_recording_def update_global_metrics_def update_host_deltas_def
  update_host_flags_def dispatch_mitigation_def flag_host_def increment_def
  update_config_def

lemmas run_defs =
  state_of_def raised_def host_window_def example_configuration_def quiet_batch_def
  two_hosts_batch_def Let_def

text \<open>
  C1 (the code departs from the claim). After the constructor and two
  \<^verbatim>\<open>record_sample\<close> calls with the sample \<^verbatim>\<open>{Activity: 2}\<close> and a capacity of 3, the
  host has \<^verbatim>\<open>current_samples = 3\<close> while its Activity sequence holds four entries: the
  second call appends the value and then the first difference to the one deque that both
  dictionaries share since the first call.
\<close>

theorem C1_activity_window_outgrows_current_samples:
  "raised (run (CoResidencyDetector_init example_configuration)
             [quiet_batch, quiet_batch, quiet_batch]) = None \<and>
   host_window
     (state_of (run (CoResidencyDetector_init example_configuration)
                  [quiet_batch, quiet_batch, quiet_batch]))
     ''A'' ''Activity''
   = Some (Some [2, 2, 2, 0], Some [2, 2, 2, 0], 3, 3)"
  by (simp add: run_defs detector_defs host_defs)

text \<open>
  C2 (the code departs from the claim). A host that has seen four samples under
  \<^verbatim>\<open>MaxSamples = 5\<close> keeps \<^verbatim>\<open>current_samples = 4\<close> when a reload lowers
  \<^verbatim>\<open>MaxSamples\<close> to 3, and the next sample raises it to 5:
  \<^verbatim>\<open>__adjust_sample_size\<close> shortens the deques and stores the new capacity but leaves
  \<^verbatim>\<open>current_samples\<close> alone, and \<^verbatim>\<open>record_sample\<close> tests for equality only.
\<close>

theorem C2_current_samples_exceeds_lowered_capacity:
  "host_window
     (state_of (run (CoResidencyDetector_init (example_configuration\<lparr>MaxSamples := 5\<rparr>))
                  [quiet_batch, quiet_batch, quiet_batch, quiet_batch,
                   Reload_event example_configuration]))
     ''A'' ''Activity''
   = Some (Some [2, 2], Some [2, 2], 4, 3) \<and>
   raised (run (CoResidencyDetector_init (example_configuration\<lparr>MaxSamples := 5\<rparr>))
             [quiet_batch, quiet_batch, quiet_batch, quiet_batch,
              Reload_event example_configuration, quiet_batch]) = None \<and>
   host_window
     (state_of (run (CoResidencyDetector_init (example_configuration\<lparr>MaxSamples := 5\<rparr>))
                  [quiet_batch, quiet_batch, quiet_batch, quiet_batch,
                   Reload_event example_configuration, quiet_batch]))
     ''A'' ''Activity''
   = Some (Some [2, 2, 2, 0], Some [2, 2, 2, 0], 5, 3)"
  by (simp add: run_defs detector_defs host_defs eval_nat_numeral)

text \<open>
  C5 (the code departs from the claim). The delta computation is not total. A first batch
  with one host reporting \<^verbatim>\<open>{Activity: 2, Cpu: 0}\<close> makes the baseline of Cpu zero and
  the batch ends in ZeroDivisionError. Three batches of two hosts that are both flagged
  leave no benign host: the baseline is empty and the third batch ends in KeyError.
\<close>

theorem C5_delta_computation_raises:
  "raised (run (CoResidencyDetector_init example_configuration)
             [Sample_event [(''A'', [(''Activity'', 2), (''Cpu'', 0)])]])
   = Some ZeroDivisionError \<and>
   raised (run (CoResidencyDetector_init example_configuration)
             [two_hosts_batch, two_hosts_batch, two_hosts_batch])
   = Some KeyError \<and>
   global_metrics (state_of (run (CoResidencyDetector_init example_configuration)
             [two_hosts_batch, two_hosts_batch, two_hosts_batch])) = []"
  by (simp add: run_defs detector_defs host_defs)

section \<open>What the window operations leave alone\<close>

lemma frame_refl: "\<exists>ds. h = h\<lparr>deques := ds\<rparr>"
  by (rule exI[of _ "deques h"]) simp

lemma popleft_frame:
  "popleft r h = Done h' \<or> popleft r h = Raise e h' \<Longrightarrow> \<exists>ds. h' = h\<lparr>deques := ds\<rparr>"
  by (auto simp: popleft_def frame_refl split: list.splits)

lemma popleft_keys_frame:
  "popleft_keys ks h = Done h' \<or> popleft_keys ks h = Raise e h' \<Longrightarrow> \<exists>ds. h' = h\<lparr>deques := ds\<rparr>"
proof (induction ks arbitrary: h)
  case Nil
  then show ?case by (auto simp: frame_refl)
next
  case (Cons k ks)
  show ?case
  proof (cases "map_of (metrics h) k")
    case None
    with Cons.prems show ?thesis by (auto simp: frame_refl)
  next
    case (Some r)
    note r = this
    show ?thesis
    proof (cases "popleft r h")
      case (Raise e1 h1)
      with Cons.prems r popleft_frame[of r h h1 e1] show ?thesis by auto
    next
      case (Done h1)
      note d1 = this
      then obtain ds1 where f1: "h1 = h\<lparr>deques := ds1\<rparr>" using popleft_frame[of r h h1] by auto
      show ?thesis
      proof (cases "map_of (normalized_metrics h1) k")
        case None
        with Cons.prems r d1 f1 show ?thesis by auto
      next
        case (Some rn)
        note rn = this
        show ?thesis
        proof (cases "popleft rn h1")
          case (Raise e2 h2)
          then obtain ds2 where "h2 = h1\<lparr>deques := ds2\<rparr>" using popleft_frame[of rn h1 h2 e2] by auto
          with Cons.prems r d1 rn Raise f1 show ?thesis by auto
        next
          case (Done h2)
          then obtain ds2 where f2: "h2 = h1\<lparr>deques := ds2\<rparr>" using popleft_frame[of rn h1 h2] by auto
          from Cons.prems r d1 rn Done
          have "popleft_keys ks h2 = Done h' \<or> popleft_keys ks h2 = Raise e h'" by simp
          from Cons.IH[OF this] f1 f2 show ?thesis by auto
        qed
      qed
    qed
  qed
qed

lemma append_items_frame:
  "append_items s h = Done h' \<or> append_items s h = Raise e h' \<Longrightarrow> \<exists>ds. h' = h\<lparr>deques := ds\<rparr>"
proof (induction s arbitrary: h)
  case Nil
  then show ?case by (auto simp: frame_refl)
next
  case (Cons kv s)
  obtain k v where kv: "kv = (k, v)" by (cases kv)
  show ?case
  proof (cases "map_of (metrics h) k")
    case None
    with Cons.prems kv show ?thesis by (auto simp: frame_refl)
  next
    case (Some r)
    note r = this
    define h1 where "h1 = append_deque r v h"
    have f1: "h1 = h\<lparr>deques := deques h1\<rparr>" unfolding h1_def by (simp add: append_deque_def)
    show ?thesis
    proof (cases "map_of (normalized_metrics h1) k")
      case None
      with Cons.prems kv r f1 show ?thesis by (auto simp: h1_def[symmetric])
    next
      case (Some rn)
      note rn = this
      show ?thesis
      proof (cases "length (deques h1 ! r) < 2")
        case True
        with Cons.prems kv r rn f1 show ?thesis by (auto simp: h1_def[symmetric] Let_def)
      next
        case False
        define h2 where "h2 = append_deque rn (last (deques h1 ! r) - last (butlast (deques h1 ! r))) h1"
        have f2: "h2 = h1\<lparr>deques := deques h2\<rparr>" unfolding h2_def by (simp add: append_deque_def)
        from Cons.prems kv r rn False
        have "append_items s h2 = Done h' \<or> append_items s h2 = Raise e h'"
          by (simp add: h1_def[symmetric] h2_def[symmetric] Let_def)
        from Cons.IH[OF this] obtain ds where "h' = h2\<lparr>deques := ds\<rparr>" by auto
        then have "h' = h\<lparr>deques := ds\<rparr>" using f1 f2
          by (metis (no_types) HostMetrics.update_convs(1) HostMetrics.surjective)
        then show ?thesis by blast
      qed
    qed
  qed
qed

text \<open>
  What a call of \<^verbatim>\<open>record_sample\<close> can do: raise with only the deques and
  \<^verbatim>\<open>current_samples\<close> changed, or reach the activity test with those and the shared
  Activity reference changed.
\<close>

lemma record_sample_cases:
  assumes "record_sample h0 s = R"
  shows "(\<exists>e ds c. R = Raise e (h0\<lparr>deques := ds, current_samples := c\<rparr>) \<and>
            (c = current_samples h0 \<or> c = current_samples h0 + 1))
       \<or> (\<exists>ds c r. (c = current_samples h0 \<or> c = current_samples h0 + 1) \<and>
             map_of (metrics h0) ''Activity'' = Some r \<and>
             R = adjust_activity (h0\<lparr>deques := ds, current_samples := c,
                    normalized_metrics := AList.update ''Activity'' r (normalized_metrics h0)\<rparr>))"
proof -
  define ha where "ha = (if current_samples h0 = max_samples h0 then popleft_keys (map fst s) h0
            else Done (h0\<lparr>current_samples := current_samples h0 + 1\<rparr>))"
  have R: "R = (case ha of Raise e h1 \<Rightarrow> Raise e h1 | Done h1 \<Rightarrow>
          (case append_items s h1 of Raise e h2 \<Rightarrow> Raise e h2
           | Done h2 \<Rightarrow> (case map_of (metrics h2) ''Activity'' of None \<Rightarrow> Raise KeyError h2
                | Some r \<Rightarrow> adjust_activity (h2\<lparr>normalized_metrics := AList.update ''Activity'' r (normalized_metrics h2)\<rparr>))))"
    using assms by (simp add: record_sample_def ha_def)
  have ha: "\<exists>ds c. (ha = Done (h0\<lparr>deques := ds, current_samples := c\<rparr>) \<or> (\<exists>e. ha = Raise e (h0\<lparr>deques := ds, current_samples := c\<rparr>)))
      \<and> (c = current_samples h0 \<or> c = current_samples h0 + 1)"
  proof (cases "current_samples h0 = max_samples h0")
    case True
    then have eq: "ha = popleft_keys (map fst s) h0" by (simp add: ha_def)
    show ?thesis
    proof (cases ha)
      case (Done h1)
      with eq popleft_keys_frame[of "map fst s" h0 h1] obtain ds where "h1 = h0\<lparr>deques := ds\<rparr>" by auto
      then have "ha = Done (h0\<lparr>deques := ds, current_samples := current_samples h0\<rparr>)" using Done by simp
      then show ?thesis by blast
    next
      case (Raise e h1)
      with eq popleft_keys_frame[of "map fst s" h0 h1 e] obtain ds where "h1 = h0\<lparr>deques := ds\<rparr>" by auto
      then have "ha = Raise e (h0\<lparr>deques := ds, current_samples := current_samples h0\<rparr>)" using Raise by simp
      then show ?thesis by blast
    qed
  next
    case False
    then have "ha = Done (h0\<lparr>deques := deques h0, current_samples := current_samples h0 + 1\<rparr>)" by (simp add: ha_def)
    then show ?thesis by blast
  qed
  then obtain ds c where hc: "ha = Done (h0\<lparr>deques := ds, current_samples := c\<rparr>) \<or> (\<exists>e. ha = Raise e (h0\<lparr>deques := ds, current_samples := c\<rparr>))"
    and c: "c = current_samples h0 \<or> c = current_samples h0 + 1" by blast
  from hc show ?thesis
  proof
    assume "\<exists>e. ha = Raise e (h0\<lparr>deques := ds, current_samples := c\<rparr>)"
    then obtain e where "ha = Raise e (h0\<lparr>deques := ds, current_samples := c\<rparr>)" by blast
    then have "R = Raise e (h0\<lparr>deques := ds, current_samples := c\<rparr>)" by (simp only: R outcome.case)
    with c show ?thesis by blast
  next
    assume d: "ha = Done (h0\<lparr>deques := ds, current_samples := c\<rparr>)"
    define h1 where "h1 = h0\<lparr>deques := ds, current_samples := c\<rparr>"
    show ?thesis
    proof (cases "append_items s h1")
      case (Raise e h2)
      with append_items_frame[of s h1 h2 e] obtain ds2 where "h2 = h1\<lparr>deques := ds2\<rparr>" by auto
      then have "h2 = h0\<lparr>deques := ds2, current_samples := c\<rparr>" by (simp add: h1_def)
      moreover have "R = Raise e h2" using R d Raise by (simp add: h1_def)
      ultimately show ?thesis using c by blast
    next
      case (Done h2)
      with append_items_frame[of s h1 h2] obtain ds2 where "h2 = h1\<lparr>deques := ds2\<rparr>" by auto
      then have h2: "h2 = h0\<lparr>deques := ds2, current_samples := c\<rparr>" by (simp add: h1_def)
      show ?thesis
      proof (cases "map_of (metrics h0) ''Activity''")
        case None
        with R d Done h2 have "R = Raise KeyError (h0\<lparr>deques := ds2, current_samples := c\<rparr>)" by (simp add: h1_def)
        with c show ?thesis by blast
      next
        case (Some r)
        with R d Done h2 have "R = adjust_activity (h0\<lparr>deques := ds2, current_samples := c,
                    normalized_metrics := AList.update ''Activity'' r (normalized_metrics h0)\<rparr>)" by (simp add: h1_def)
        with c Some show ?thesis by blast
      qed
    qed
  qed
qed





section \<open>Hysteresis of the active bit\<close>




section \<open>Reloading the configuration\<close>

lemmas manager_defs =
  on_modified_def build_configuration_def JSONParser_init_def mitigation_view_def
  JSONParser_getitem_def bind_err_def copy_section_def section_value_def assign_def
  ConfigurationManager_init_def constructed_def example_document_def empty_view_def

text \<open>
  C4 (the code departs from the claim). When the reload reads malformed JSON the parser
  logs the error and \<^verbatim>\<open>__getitem__\<close> answers \<^verbatim>\<open>None\<close>, but
  \<^verbatim>\<open>__build_configuration\<close> does not skip the load: it assigns a view with
  \<^verbatim>\<open>Mitigation = None\<close> and empty thresholds and event names over the cached one and
  then raises TypeError at \<^verbatim>\<open>for key in None\<close>. No event is emitted, and the previous
  view is gone. This holds for every state of the manager; the second and third conjunct
  show it for a manager built from a well-formed document.
\<close>

theorem C4_failed_load_replaces_view:
  "on_modified cm (config_path cm) Malformed = Raise TypeError (cm\<lparr>cm_configuration := empty_view\<rparr>) \<and>
   map_option cm_configuration
     (constructed (ConfigurationManager_init ''/etc/detector.json'' (Loaded example_document)))
   = Some [(PStr ''Mitigation'',
            PDict [(PStr ''FlagsBeforeActivation'', PInt 1),
                   (PStr ''DeflagsBeforeDeactivation'', PInt 1)]),
           (PStr ''Thresholds'', PDict [(PStr ''Activity'', PFloat 0)]),
           (PStr ''EventNames'', PDict [(PStr ''ConfigurationReloaded'', PStr ''reload'')]),
           (PStr ''MaxSamples'', PInt 3)] \<and>
   map_option (\<lambda>m. on_modified m ''/etc/detector.json'' Malformed)
     (constructed (ConfigurationManager_init ''/etc/detector.json'' (Loaded example_document)))
   = Some (Raise TypeError
             \<lparr>config_path = ''/etc/detector.json'', cm_configuration = empty_view, cm_emitted = []\<rparr>)"
  by (simp add: manager_defs)

section \<open>Singletons\<close>

lemma later_construction:
  "map_of (instances p) cls = Some r \<Longrightarrow> SingletonMeta_call cls a p = (Inr r, p)"
  by (simp add: SingletonMeta_call_def)

lemma first_construction:
  "SingletonMeta_call cls a p = (Inr r, p') \<Longrightarrow> map_of (instances p') cls = Some r"
  by (auto simp: SingletonMeta_call_def update_conv' split: option.splits sum.splits)

lemma instance_kept:
  "map_of (instances p) cls = Some r \<Longrightarrow> SingletonMeta_call c a p = (x, p') \<Longrightarrow>
   map_of (instances p') cls = Some r"
  by (auto simp: SingletonMeta_call_def update_conv' split: option.splits sum.splits)

lemma constructions_kept:
  "map_of (instances p) cls = Some r \<Longrightarrow> constructions cs p = (rs, p') \<Longrightarrow>
   map_of (instances p') cls = Some r \<and> length rs = length cs \<and>
   (\<forall>i < length cs. fst (cs ! i) = cls \<longrightarrow> rs ! i = Inr r) \<and>
   ((\<forall>c \<in> set cs. fst c = cls) \<longrightarrow> p' = p)"
proof (induction cs arbitrary: p rs p')
  case Nil
  then show ?case by simp
next
  case (Cons ca cs)
  obtain c a where ca: "ca = (c, a)" by (cases ca)
  obtain x p1 where step: "SingletonMeta_call c a p = (x, p1)" by (cases "SingletonMeta_call c a p")
  obtain rs1 p2 where rest: "constructions cs p1 = (rs1, p2)" by (cases "constructions cs p1")
  from Cons.prems(2) ca step rest have rs: "rs = x # rs1" and p': "p' = p2" by simp_all
  from instance_kept[OF Cons.prems(1) step] have k1: "map_of (instances p1) cls = Some r" .
  from Cons.IH[OF k1 rest] have ih: "map_of (instances p2) cls = Some r" "length rs1 = length cs"
    "\<forall>i < length cs. fst (cs ! i) = cls \<longrightarrow> rs1 ! i = Inr r"
    "(\<forall>c \<in> set cs. fst c = cls) \<longrightarrow> p2 = p1" by simp_all
  have same: "c = cls \<Longrightarrow> x = Inr r \<and> p1 = p"
    using later_construction[OF Cons.prems(1), of a] step by simp
  have "\<forall>i < length (ca # cs). fst ((ca # cs) ! i) = cls \<longrightarrow> rs ! i = Inr r"
  proof (intro allI impI)
    fix i assume "i < length (ca # cs)" "fst ((ca # cs) ! i) = cls"
    then show "rs ! i = Inr r" using ih(3) same by (cases i) (auto simp: rs ca)
  qed
  moreover have "(\<forall>c \<in> set (ca # cs). fst c = cls) \<longrightarrow> p' = p"
    using ih(4) same by (auto simp: p' ca)
  ultimately show ?case using ih(1,2) by (simp add: rs p')
qed

text \<open>
  C10. Once a construction of a class has returned an instance, every later construction of
  that class, with any arguments and in any sequence of constructions of either class,
  returns that instance; and a sequence of constructions of that class only leaves the
  process as it was: no object is created or changed, no handler is subscribed, and the
  arguments are not looked at.
\<close>

theorem C10_singleton:
  assumes "SingletonMeta_call cls a0 p0 = (Inr r, p1)"
    and "constructions cs p1 = (rs, p2)"
  shows "map_of (instances p2) cls = Some r \<and>
         (\<forall>i < length cs. fst (cs ! i) = cls \<longrightarrow> rs ! i = Inr r) \<and>
         ((\<forall>c \<in> set cs. fst c = cls) \<longrightarrow> p2 = p1)"
  using constructions_kept[OF first_construction[OF assms(1)] assms(2)] by blast

theorem C10_singleton_witness:
  "SingletonMeta_call CoResidencyDetector_class (Detector_args example_configuration 0) started_process
     = (Inr 1, snd (SingletonMeta_call CoResidencyDetector_class
                      (Detector_args example_configuration 0) started_process)) \<and>
   constructions
     [(CoResidencyDetector_class, Detector_args (example_configuration\<lparr>MaxSamples := 9\<rparr>) 0),
      (CoResidencyDetector_class, No_args)]
     (snd (SingletonMeta_call CoResidencyDetector_class
             (Detector_args example_configuration 0) started_process))
   = ([Inr 1, Inr 1],
      snd (SingletonMeta_call CoResidencyDetector_class
             (Detector_args example_configuration 0) started_process)) \<and>
   objects (snd (SingletonMeta_call CoResidencyDetector_class
             (Detector_args example_configuration 0) started_process))
   = [EventManager_object [(''reload'', Update_config 1), (''sample'', Update_metrics 1)],
      CoResidencyDetector_object 0 (CoResidencyDetector_init example_configuration)]"
  using C10_singleton [of CoResidencyDetector_class "Detector_args example_configuration 0"
      started_process 1
      "snd (SingletonMeta_call CoResidencyDetector_class
             (Detector_args example_configuration 0) started_process)"
      "[(CoResidencyDetector_class, Detector_args (example_configuration\<lparr>MaxSamples := 9\<rparr>) 0),
        (CoResidencyDetector_class, No_args)]"
      "[Inr 1, Inr 1]"
      "snd (SingletonMeta_call CoResidencyDetector_class
             (Detector_args example_configuration 0) started_process)"]
  by (simp add: SingletonMeta_call_def new_object_def EventManager_on_def started_process_def
        example_configuration_def)

section \<open>The global baseline\<close>








section \<open>Well-formed hosts\<close>

text \<open>
  The constructor returns a well-formed host, and \<^verbatim>\<open>record_sample\<close>,
  \<^verbatim>\<open>reconfigure\<close> and \<^verbatim>\<open>update_deltas\<close> keep a host well formed whether they return
  or raise.
\<close>

lemma seed_items_keys:
  "map fst (normalized_metrics h) = map fst (metrics h) \<Longrightarrow>
   map fst (normalized_metrics (seed_items s h)) = map fst (metrics (seed_items s h)) \<and>
   current_samples (seed_items s h) = current_samples h"
proof (induction s arbitrary: h)
  case Nil
  then show ?case by simp
next
  case (Cons kv s)
  obtain k v where kv: "kv = (k, v)" by (cases kv)
  show ?case unfolding kv seed_items.simps Let_def
    by (rule conjI; subst Cons.IH[THEN conjunct1] Cons.IH[THEN conjunct2]; simp add: update_keys Cons.prems)
qed

lemma adjust_activity_ok:
  "adjust_activity h = Done h' \<or> adjust_activity h = Raise e h' \<Longrightarrow> host_ok h \<Longrightarrow> host_ok h'"
  by (auto simp: adjust_activity_def host_ok_def split: option.splits if_splits)

lemma HostMetrics_init_ok:
  assumes "HostMetrics_init s mx a i p = Inr h"
  shows "host_ok h"
proof -
  define h00 where "h00 = \<lparr>deques = [], metrics = [], normalized_metrics = [],
                max_samples = mx, current_samples = 1,
                activity_threshold = (if 0 < a then a else mx - 1),
                inactivity_threshold = (if 0 < i then i else 1),
                pref_normalized = p, deltas = [], active = False\<rparr>"
  from assms have adj: "adjust_activity (seed_items s h00) = Done h"
    by (auto simp: HostMetrics_init_def h00_def Let_def split: if_splits outcome.splits)
  have "host_ok (seed_items s h00)"
    using seed_items_keys[of h00 s] by (simp add: host_ok_def h00_def)
  with adj show ?thesis using adjust_activity_ok by blast
qed

lemma record_sample_ok:
  assumes "record_sample h0 s = Done h1 \<or> record_sample h0 s = Raise e h1" and "host_ok h0"
  shows "host_ok h1"
proof -
  obtain R where R: "record_sample h0 s = R" "R = Done h1 \<or> R = Raise e h1" using assms(1) by blast
  from record_sample_cases[OF R(1)] show ?thesis
  proof
    assume "\<exists>e ds c. R = Raise e (h0\<lparr>deques := ds, current_samples := c\<rparr>) \<and>
            (c = current_samples h0 \<or> c = current_samples h0 + 1)"
    then obtain e' ds c where "R = Raise e' (h0\<lparr>deques := ds, current_samples := c\<rparr>)"
      "c = current_samples h0 \<or> c = current_samples h0 + 1" by blast
    with R(2) assms(2) show ?thesis by (auto simp: host_ok_def)
  next
    assume "\<exists>ds c r. (c = current_samples h0 \<or> c = current_samples h0 + 1) \<and>
             map_of (metrics h0) ''Activity'' = Some r \<and>
             R = adjust_activity (h0\<lparr>deques := ds, current_samples := c,
                    normalized_metrics := AList.update ''Activity'' r (normalized_metrics h0)\<rparr>)"
    then obtain ds c r where c: "c = current_samples h0 \<or> c = current_samples h0 + 1"
      and r: "map_of (metrics h0) ''Activity'' = Some r"
      and adj: "R = adjust_activity (h0\<lparr>deques := ds, current_samples := c,
                    normalized_metrics := AList.update ''Activity'' r (normalized_metrics h0)\<rparr>)" by blast
    from map_of_SomeD[OF r] have "fst (''Activity'', r) \<in> fst ` set (metrics h0)" by (rule imageI)
    then have "''Activity'' \<in> fst ` set (metrics h0)" by simp
    then have "''Activity'' \<in> set (map fst (normalized_metrics h0))" using assms(2) by (simp add: host_ok_def)
    then have "map fst (AList.update ''Activity'' r (normalized_metrics h0)) = map fst (normalized_metrics h0)"
      by (simp add: update_keys)
    then have "host_ok (h0\<lparr>deques := ds, current_samples := c,
                    normalized_metrics := AList.update ''Activity'' r (normalized_metrics h0)\<rparr>)"
      using assms(2) c by (auto simp: host_ok_def)
    moreover from adj R(2) have "adjust_activity (h0\<lparr>deques := ds, current_samples := c,
                    normalized_metrics := AList.update ''Activity'' r (normalized_metrics h0)\<rparr>) = Done h1 \<or>
       adjust_activity (h0\<lparr>deques := ds, current_samples := c,
                    normalized_metrics := AList.update ''Activity'' r (normalized_metrics h0)\<rparr>) = Raise e h1"
      by auto
    ultimately show ?thesis by (rule adjust_activity_ok[rotated])
  qed
qed

lemma popleft_rounds_frame:
  "popleft_rounds n h = Done h' \<or> popleft_rounds n h = Raise e h' \<Longrightarrow> \<exists>ds. h' = h\<lparr>deques := ds\<rparr>"
proof (induction n arbitrary: h)
  case 0
  then show ?case by (auto simp: frame_refl)
next
  case (Suc n)
  show ?case
  proof (cases "popleft_keys (map fst (metrics h)) h")
    case (Raise e1 h1)
    with Suc.prems have "h' = h1" by simp
    with Raise popleft_keys_frame[of "map fst (metrics h)" h h1 e1] show ?thesis by simp
  next
    case (Done h1)
    with popleft_keys_frame[of "map fst (metrics h)" h h1] obtain ds1 where f1: "h1 = h\<lparr>deques := ds1\<rparr>" by auto
    from Suc.prems Done have "popleft_rounds n h1 = Done h' \<or> popleft_rounds n h1 = Raise e h'" by simp
    from Suc.IH[OF this] f1 show ?thesis by auto
  qed
qed

lemma reconfigure_ok:
  assumes "reconfigure h mx a i p = Done h' \<or> reconfigure h mx a i p = Raise e h'" and "host_ok h"
  shows "host_ok h'"
proof -
  define h1 where "h1 = h\<lparr>activity_threshold := a, inactivity_threshold := i, pref_normalized := p\<rparr>"
  have ok1: "host_ok h1" using assms(2) by (simp add: h1_def host_ok_def)
  define W where "W = (if mx < max_samples h1 then popleft_rounds (nat (max_samples h1 - mx)) h1 else Done h1)"
  have "\<exists>ds. (W = Done (h1\<lparr>deques := ds\<rparr>) \<or> (\<exists>e. W = Raise e (h1\<lparr>deques := ds\<rparr>)))"
  proof (cases W)
    case (Done h2)
    then have "h2 = h1 \<or> popleft_rounds (nat (max_samples h1 - mx)) h1 = Done h2" by (auto simp: W_def split: if_splits)
    then have "\<exists>ds. h2 = h1\<lparr>deques := ds\<rparr>"
    proof
      assume "h2 = h1" then show ?thesis by (simp add: frame_refl)
    next
      assume "popleft_rounds (nat (max_samples h1 - mx)) h1 = Done h2"
      then show ?thesis using popleft_rounds_frame[of "nat (max_samples h1 - mx)" h1 h2] by simp
    qed
    with Done show ?thesis by blast
  next
    case (Raise e2 h2)
    then have "popleft_rounds (nat (max_samples h1 - mx)) h1 = Raise e2 h2" by (auto simp: W_def split: if_splits)
    then have "\<exists>ds. h2 = h1\<lparr>deques := ds\<rparr>"
      using popleft_rounds_frame[of "nat (max_samples h1 - mx)" h1 h2 e2] by simp
    with Raise show ?thesis by blast
  qed
  then obtain ds where W: "W = Done (h1\<lparr>deques := ds\<rparr>) \<or> (\<exists>e. W = Raise e (h1\<lparr>deques := ds\<rparr>))" by blast
  have r: "reconfigure h mx a i p = (case W of Raise e h2 \<Rightarrow> Raise e h2 | Done h2 \<Rightarrow> Done (h2\<lparr>max_samples := mx\<rparr>))"
    by (simp add: reconfigure_def adjust_sample_size_def h1_def W_def)
  from W assms(1) have "h' = h1\<lparr>deques := ds, max_samples := mx\<rparr> \<or> h' = h1\<lparr>deques := ds\<rparr>"
    unfolding r by auto
  with ok1 show ?thesis by (auto simp: host_ok_def)
qed

lemma delta_items_frame:
  "delta_items rep g h = Done h' \<or> delta_items rep g h = Raise e h' \<Longrightarrow> \<exists>dl. h' = h\<lparr>deltas := dl\<rparr>"
proof (induction rep arbitrary: h)
  case Nil
  then have "h' = h\<lparr>deltas := deltas h\<rparr>" by auto
  then show ?case by blast
next
  case (Cons kv rep)
  obtain k v where kv: "kv = (k, v)" by (cases kv)
  have refl: "\<exists>dl. h = h\<lparr>deltas := dl\<rparr>" by (rule exI[of _ "deltas h"]) simp
  show ?case
  proof (cases "map_of g k")
    case None
    with Cons.prems kv refl show ?thesis by auto
  next
    case (Some gv)
    show ?thesis
    proof (cases "gv = 0")
      case True
      with Cons.prems kv Some refl show ?thesis by auto
    next
      case False
      with Cons.prems kv Some
      have "delta_items rep g (h\<lparr>deltas := AList.update k \<bar>1 - of_int v / gv\<bar> (deltas h)\<rparr>) = Done h' \<or>
            delta_items rep g (h\<lparr>deltas := AList.update k \<bar>1 - of_int v / gv\<bar> (deltas h)\<rparr>) = Raise e h'" by simp
      from Cons.IH[OF this] show ?thesis by auto
    qed
  qed
qed

lemma update_deltas_frame:
  "update_deltas h g = Done h' \<or> update_deltas h g = Raise e h' \<Longrightarrow> \<exists>dl. h' = h\<lparr>deltas := dl\<rparr>"
proof (cases "get_metrics h")
  case (Inl e1)
  assume "update_deltas h g = Done h' \<or> update_deltas h g = Raise e h'"
  with Inl have "h' = h\<lparr>deltas := deltas h\<rparr>" by (simp add: update_deltas_def)
  then show ?thesis by blast
next
  case (Inr rep)
  assume "update_deltas h g = Done h' \<or> update_deltas h g = Raise e h'"
  with Inr show ?thesis using delta_items_frame[of rep g h h' e] by (simp add: update_deltas_def)
qed

section \<open>What the phases of a batch leave alone\<close>

text \<open>
  Every handler keeps the hosts well formed, whether it returns or raises, so every state
  the detector reaches from its construction has well-formed hosts
  (\<open>reachable_hosts_ok\<close>).
\<close>

lemma list_all_update:
  "P (k, v) \<Longrightarrow> list_all P al \<Longrightarrow> list_all P (AList.update k v al)"
  by (induction al) auto

lemma list_all_map_of:
  "list_all P al \<Longrightarrow> map_of al k = Some v \<Longrightarrow> P (k, v)"
  using map_of_SomeD[of al k v] by (auto simp: list_all_iff)

lemma detector_frame_refl: "\<exists>hs. d = d\<lparr>host_metrics := hs\<rparr>"
  by (rule exI[of _ "host_metrics d"]) simp

lemma deltas_frame_refl: "\<exists>dl. h = h\<lparr>deltas := dl\<rparr>"
  by (rule exI[of _ "deltas h"]) simp

lemma new_host_ok:
  assumes "new_host k s d = Done d' \<or> new_host k s d = Raise e d'" and "hosts_ok d"
  shows "hosts_ok d' \<and> (\<exists>hs. d' = d\<lparr>host_metrics := hs\<rparr>)"
proof (cases "HostMetrics_init s (MaxSamples (configuration d)) (SamplesBeforeInclusion (configuration d))
             (SamplesBeforeExclusion (configuration d)) (NormalizeSamples (configuration d))")
  case (Inl e1)
  with assms have "d' = d" by (simp add: new_host_def)
  moreover have "d = d\<lparr>host_metrics := host_metrics d\<rparr>" by simp
  ultimately show ?thesis using assms(2) by metis
next
  case (Inr h)
  with assms(1) have d': "d' = d\<lparr>host_metrics := AList.update k h (host_metrics d)\<rparr>" by (simp add: new_host_def)
  from HostMetrics_init_ok[OF Inr] have "host_ok h" .
  then have "hosts_ok d'" using assms(2) by (simp add: d' hosts_ok_def list_all_update)
  with d' show ?thesis by blast
qed

lemma record_host_ok:
  assumes "record_host k s d = Done d' \<or> record_host k s d = Raise e d'" and "hosts_ok d"
  shows "hosts_ok d' \<and> (\<exists>hs. d' = d\<lparr>host_metrics := hs\<rparr>)"
proof (cases "map_of (host_metrics d) k")
  case None
  with assms(1) have "new_host k s d = Done d' \<or> new_host k s d = Raise e d'" by (simp add: record_host_def)
  from new_host_ok[OF this assms(2)] show ?thesis .
next
  case (Some h)
  from list_all_map_of[OF _ Some, of "\<lambda>(host_id, h). host_ok h"] assms(2) have ok: "host_ok h"
    by (simp add: hosts_ok_def)
  show ?thesis
  proof (cases "record_sample h s")
    case (Done h1)
    from record_sample_ok[OF _ ok, of s h1] Done have "host_ok h1" by simp
    moreover from assms(1) Some Done have d': "d' = d\<lparr>host_metrics := AList.update k h1 (host_metrics d)\<rparr>"
      by (simp add: record_host_def)
    ultimately have "hosts_ok d'" using assms(2) by (simp add: hosts_ok_def list_all_update)
    with d' show ?thesis by blast
  next
    case (Raise e1 h1)
    from record_sample_ok[OF _ ok, of s h1 e1] Raise have ok1: "host_ok h1" by simp
    define d1 where "d1 = d\<lparr>host_metrics := AList.update k h1 (host_metrics d)\<rparr>"
    have okd1: "hosts_ok d1" using assms(2) ok1 by (simp add: d1_def hosts_ok_def list_all_update)
    show ?thesis
    proof (cases "e1 = KeyError")
      case True
      with assms(1) Some Raise have "new_host k s d1 = Done d' \<or> new_host k s d1 = Raise e d'"
        by (simp add: record_host_def d1_def Let_def)
      from new_host_ok[OF this okd1] obtain hs where "hosts_ok d'" "d' = d1\<lparr>host_metrics := hs\<rparr>" by blast
      then show ?thesis by (auto simp: d1_def)
    next
      case False
      with assms(1) Some Raise have "d' = d1" by (simp add: record_host_def d1_def Let_def)
      with okd1 show ?thesis by (auto simp: d1_def)
    qed
  qed
qed

lemma record_hosts_ok:
  "record_hosts batch d = Done d' \<or> record_hosts batch d = Raise e d' \<Longrightarrow> hosts_ok d \<Longrightarrow>
   hosts_ok d' \<and> (\<exists>hs. d' = d\<lparr>host_metrics := hs\<rparr>)"
proof (induction batch arbitrary: d)
  case Nil
  then have "d' = d" by auto
  with Nil show ?case by (simp add: detector_frame_refl)
next
  case (Cons ks batch)
  obtain k s where ks: "ks = (k, s)" by (cases ks)
  show ?case
  proof (cases "record_host k s d")
    case (Raise e1 d1)
    with Cons.prems(1) ks have "d' = d1" by simp
    with record_host_ok[OF _ Cons.prems(2), of k s d1 e1] Raise show ?thesis by simp
  next
    case (Done d1)
    with record_host_ok[OF _ Cons.prems(2), of k s d1] obtain hs1 where d1: "hosts_ok d1" "d1 = d\<lparr>host_metrics := hs1\<rparr>" by auto
    from Cons.prems(1) ks Done have "record_hosts batch d1 = Done d' \<or> record_hosts batch d1 = Raise e d'" by simp
    from Cons.IH[OF this d1(1)] d1(2) show ?thesis by auto
  qed
qed

text \<open>
  The hosts after phase (c), related one by one to the hosts before: the same key, and the
  same host apart from its deltas.
\<close>

lemma deltas_each_rel:
  "deltas_each g hs = Done hs' \<or> deltas_each g hs = Raise e hs' \<Longrightarrow>
   list_all2 (\<lambda>(k, h) (k', h'). k' = k \<and> (\<exists>dl. h' = h\<lparr>deltas := dl\<rparr>)) hs hs'"
proof (induction hs arbitrary: hs' e)
  case Nil
  then show ?case by auto
next
  case (Cons kh hs)
  obtain k h where kh: "kh = (k, h)" by (cases kh)
  have refl: "\<exists>dl. h = h\<lparr>deltas := dl\<rparr>" by (rule exI[of _ "deltas h"]) simp
  have refls: "list_all2 (\<lambda>(k, h) (k', h'). k' = k \<and> (\<exists>dl. h' = h\<lparr>deltas := dl\<rparr>)) hs hs"
    by (rule list_all2_refl) (auto simp: deltas_frame_refl)
  show ?case
  proof (cases "active h")
    case False
    show ?thesis
    proof (cases "deltas_each g hs")
      case (Done r)
      with Cons.prems False kh have "hs' = (k, h) # r" by simp
      with Cons.IH[of r] Done refl show ?thesis by (simp add: kh)
    next
      case (Raise e1 r)
      with Cons.prems False kh have "hs' = (k, h) # r" by simp
      with Cons.IH[of r e1] Raise refl show ?thesis by (simp add: kh)
    qed
  next
    case True
    show ?thesis
    proof (cases "update_deltas h g")
      case (Raise e1 h1)
      with Cons.prems True kh have "hs' = (k, h1) # hs" by simp
      moreover from update_deltas_frame[of h g h1 e1] Raise have "\<exists>dl. h1 = h\<lparr>deltas := dl\<rparr>" by simp
      ultimately show ?thesis using refls by (simp add: kh)
    next
      case (Done h1)
      from update_deltas_frame[of h g h1] Done have f: "\<exists>dl. h1 = h\<lparr>deltas := dl\<rparr>" by simp
      show ?thesis
      proof (cases "deltas_each g hs")
        case (Done r)
        with Cons.prems True kh \<open>update_deltas h g = Done h1\<close> have "hs' = (k, h1) # r" by simp
        with Cons.IH[of r] Done f show ?thesis by (simp add: kh)
      next
        case (Raise e1 r)
        with Cons.prems True kh \<open>update_deltas h g = Done h1\<close> have "hs' = (k, h1) # r" by simp
        with Cons.IH[of r e1] Raise f show ?thesis by (simp add: kh)
      qed
    qed
  qed
qed

lemma deltas_rel_ok:
  "list_all2 (\<lambda>(k, h) (k', h'). k' = k \<and> (\<exists>dl. h' = h\<lparr>deltas := dl\<rparr>)) hs hs' \<Longrightarrow>
   list_all (\<lambda>(host_id, h). host_ok h) hs \<Longrightarrow> list_all (\<lambda>(host_id, h). host_ok h) hs'"
  by (induction rule: list_all2_induct) (auto simp: host_ok_def)

lemma flag_host_frame:
  "configuration (flag_host k t d) = configuration d \<and>
   host_metrics (flag_host k t d) = host_metrics d \<and>
   global_metrics (flag_host k t d) = global_metrics d \<and>
   mitigated_host_ids (flag_host k t d) = mitigated_host_ids d \<and>
   emitted (flag_host k t d) = emitted d"
  by (simp add: flag_host_def)

lemma flags_each_frame:
  "flags_each hs d = Done d' \<or> flags_each hs d = Raise e d' \<Longrightarrow>
   configuration d' = configuration d \<and> host_metrics d' = host_metrics d \<and>
   global_metrics d' = global_metrics d \<and> mitigated_host_ids d' = mitigated_host_ids d \<and>
   emitted d' = emitted d"
proof (induction hs arbitrary: d)
  case Nil
  then show ?case by auto
next
  case (Cons kh hs)
  obtain k h where kh: "kh = (k, h)" by (cases kh)
  show ?case
  proof (cases "active h")
    case False
    with Cons.prems kh have "flags_each hs d = Done d' \<or> flags_each hs d = Raise e d'" by simp
    from Cons.IH[OF this] show ?thesis .
  next
    case True
    show ?thesis
    proof (cases "trigger_flag (deltas h) (Thresholds (configuration d))")
      case (Inl e1)
      with Cons.prems kh True show ?thesis by auto
    next
      case (Inr t)
      with Cons.prems kh True
      have "flags_each hs (flag_host k t d) = Done d' \<or> flags_each hs (flag_host k t d) = Raise e d'" by simp
      from Cons.IH[OF this] show ?thesis by (simp add: flag_host_frame)
    qed
  qed
qed

lemma start_mitigation_frame:
  "configuration (start_mitigation xs limit d) = configuration d \<and>
   host_metrics (start_mitigation xs limit d) = host_metrics d \<and>
   global_metrics (start_mitigation xs limit d) = global_metrics d \<and>
   host_deflags (start_mitigation xs limit d) = host_deflags d"
proof (induction xs arbitrary: d)
  case Nil
  then show ?case by simp
next
  case (Cons kv xs)
  obtain k v where kv: "kv = (k, v)" by (cases kv)
  show ?case unfolding kv start_mitigation.simps
    by (simp only: Cons.IH) simp
qed

lemma stop_mitigation_frame:
  "configuration (stop_mitigation xs limit d) = configuration d \<and>
   host_metrics (stop_mitigation xs limit d) = host_metrics d \<and>
   global_metrics (stop_mitigation xs limit d) = global_metrics d \<and>
   host_flags (stop_mitigation xs limit d) = host_flags d"
proof (induction xs arbitrary: d)
  case Nil
  then show ?case by simp
next
  case (Cons kv xs)
  obtain k v where kv: "kv = (k, v)" by (cases kv)
  show ?case unfolding kv stop_mitigation.simps
    by (simp only: Cons.IH) simp
qed

lemma dispatch_mitigation_frame:
  "configuration (dispatch_mitigation d) = configuration d \<and>
   host_metrics (dispatch_mitigation d) = host_metrics d \<and>
   global_metrics (dispatch_mitigation d) = global_metrics d"
  by (simp add: dispatch_mitigation_def Let_def start_mitigation_frame stop_mitigation_frame
      split: option.splits)

lemma update_global_metrics_frame:
  "update_global_metrics d = Done d' \<or> update_global_metrics d = Raise e d' \<Longrightarrow>
   \<exists>g. d' = d\<lparr>global_metrics := g\<rparr>"
  by (auto simp: update_global_metrics_def split: outcome.splits prod.splits)

lemma after_recording_frame:
  assumes "after_recording d = Done d' \<or> after_recording d = Raise e d'"
  shows "configuration d' = configuration d \<and>
     list_all2 (\<lambda>(k, h) (k', h'). k' = k \<and> (\<exists>dl. h' = h\<lparr>deltas := dl\<rparr>))
       (host_metrics d) (host_metrics d')"
proof -
  have refl: "list_all2 (\<lambda>(k, h) (k', h'). k' = k \<and> (\<exists>dl. h' = h\<lparr>deltas := dl\<rparr>)) hs hs" for hs
    by (rule list_all2_refl) (auto simp: deltas_frame_refl)
  show ?thesis
  proof (cases "update_global_metrics d")
    case (Raise e1 d1)
    with assms have "d' = d1" by (simp add: after_recording_def)
    with update_global_metrics_frame[of d d1 e1] Raise show ?thesis using refl by auto
  next
    case (Done d1)
    note d1 = this
    with update_global_metrics_frame[of d d1] obtain g where g: "d1 = d\<lparr>global_metrics := g\<rparr>" by auto
    have rel: "update_host_deltas d1 = Done d2 \<or> update_host_deltas d1 = Raise e2 d2 \<Longrightarrow>
      configuration d2 = configuration d \<and>
      list_all2 (\<lambda>(k, h) (k', h'). k' = k \<and> (\<exists>dl. h' = h\<lparr>deltas := dl\<rparr>))
       (host_metrics d) (host_metrics d2)" for d2 e2
    proof -
      assume a: "update_host_deltas d1 = Done d2 \<or> update_host_deltas d1 = Raise e2 d2"
      then obtain hs where hs: "deltas_each (global_metrics d1) (host_metrics d1) = Done hs \<or>
          deltas_each (global_metrics d1) (host_metrics d1) = Raise e2 hs" and d2: "d2 = d1\<lparr>host_metrics := hs\<rparr>"
        by (auto simp: update_host_deltas_def split: outcome.splits)
      from deltas_each_rel[OF hs] show ?thesis by (simp add: d2 g)
    qed
    show ?thesis
    proof (cases "update_host_deltas d1")
      case (Raise e2 d2)
      with assms d1 have "d' = d2" by (simp add: after_recording_def)
      with rel[of d2 e2] Raise show ?thesis by simp
    next
      case (Done d2)
      note d2 = this
      from rel[of d2] Done have r2: "configuration d2 = configuration d"
        "list_all2 (\<lambda>(k, h) (k', h'). k' = k \<and> (\<exists>dl. h' = h\<lparr>deltas := dl\<rparr>))
       (host_metrics d) (host_metrics d2)" by simp_all
      show ?thesis
      proof (cases "update_host_flags d2")
        case (Raise e3 d3)
        with assms d1 d2 have "d' = d3" by (simp add: after_recording_def)
        with flags_each_frame[of "host_metrics d2" d2 d3 e3] Raise r2 show ?thesis
          by (simp add: update_host_flags_def)
      next
        case (Done d3)
        with assms d1 d2 have "d' = dispatch_mitigation d3" by (simp add: after_recording_def)
        with flags_each_frame[of "host_metrics d2" d2 d3] Done r2 show ?thesis
          by (simp add: update_host_flags_def dispatch_mitigation_frame)
      qed
    qed
  qed
qed

lemma update_metrics_ok:
  assumes "update_metrics d batch = Done d' \<or> update_metrics d batch = Raise e d'" and "hosts_ok d"
  shows "hosts_ok d'"
proof (cases "record_hosts batch d")
  case (Raise e1 d1)
  with assms(1) have "d' = d1" by (simp add: update_metrics_def)
  with record_hosts_ok[of batch d d1 e1] Raise assms(2) show ?thesis by simp
next
  case (Done d1)
  with record_hosts_ok[of batch d d1] assms(2) have ok1: "hosts_ok d1" by simp
  from assms(1) Done have "after_recording d1 = Done d' \<or> after_recording d1 = Raise e d'"
    by (simp add: update_metrics_def)
  from after_recording_frame[OF this] ok1 show ?thesis
    using deltas_rel_ok by (auto simp: hosts_ok_def)
qed

lemma reconfigure_each_ok:
  "reconfigure_each cfg hs = Done hs' \<or> reconfigure_each cfg hs = Raise e hs' \<Longrightarrow>
   list_all (\<lambda>(host_id, h). host_ok h) hs \<Longrightarrow> list_all (\<lambda>(host_id, h). host_ok h) hs'"
proof (induction hs arbitrary: hs' e)
  case Nil
  then show ?case by auto
next
  case (Cons kh hs)
  obtain k h where kh: "kh = (k, h)" by (cases kh)
  from Cons.prems(2) kh have ok: "host_ok h" and oks: "list_all (\<lambda>(host_id, h). host_ok h) hs" by simp_all
  show ?case
  proof (cases "reconfigure h (MaxSamples cfg) (SamplesBeforeInclusion cfg) (SamplesBeforeExclusion cfg) (NormalizeSamples cfg)")
    case (Raise e1 h1)
    with Cons.prems(1) kh have "hs' = (k, h1) # hs" by simp
    moreover from reconfigure_ok[OF _ ok, of "MaxSamples cfg" "SamplesBeforeInclusion cfg" "SamplesBeforeExclusion cfg" "NormalizeSamples cfg" h1 e1] Raise have "host_ok h1" by simp
    ultimately show ?thesis using oks by simp
  next
    case (Done h1)
    from reconfigure_ok[OF _ ok, of "MaxSamples cfg" "SamplesBeforeInclusion cfg" "SamplesBeforeExclusion cfg" "NormalizeSamples cfg" h1] Done have ok1: "host_ok h1" by simp
    show ?thesis
    proof (cases "reconfigure_each cfg hs")
      case (Raise e2 r)
      with Cons.prems(1) kh Done have "hs' = (k, h1) # r" by simp
      with Cons.IH[of r e2, OF _ oks] Raise ok1 show ?thesis by simp
    next
      case (Done r)
      with Cons.prems(1) kh \<open>reconfigure h (MaxSamples cfg) (SamplesBeforeInclusion cfg) (SamplesBeforeExclusion cfg) (NormalizeSamples cfg) = Done h1\<close>
      have "hs' = (k, h1) # r" by simp
      with Cons.IH[of r e, OF _ oks] Done ok1 show ?thesis by simp
    qed
  qed
qed

lemma update_config_ok:
  assumes "update_config d cfg = Done d' \<or> update_config d cfg = Raise e d'" and "hosts_ok d"
  shows "hosts_ok d'"
proof -
  from assms(1) obtain hs where "reconfigure_each cfg (host_metrics d) = Done hs \<or>
      reconfigure_each cfg (host_metrics d) = Raise e hs" and "host_metrics d' = hs"
    by (auto simp: update_config_def split: outcome.splits)
  with reconfigure_each_ok[of cfg "host_metrics d" hs e] assms(2) show ?thesis by (simp add: hosts_ok_def)
qed

lemma run_ok:
  "run d evs = Done d' \<or> run d evs = Raise e d' \<Longrightarrow> hosts_ok d \<Longrightarrow> hosts_ok d'"
proof (induction evs arbitrary: d)
  case Nil
  then show ?case by auto
next
  case (Cons ev evs)
  have step: "handle d ev = Done d1 \<or> handle d ev = Raise e1 d1 \<Longrightarrow> hosts_ok d1" for d1 e1
    using update_metrics_ok[OF _ Cons.prems(2)] update_config_ok[OF _ Cons.prems(2)] by (cases ev) auto
  show ?case
  proof (cases "handle d ev")
    case (Raise e1 d1)
    with Cons.prems(1) have "d' = d1" by simp
    with step[of d1 e1] Raise show ?thesis by simp
  next
    case (Done d1)
    with Cons.prems(1) have "run d1 evs = Done d' \<or> run d1 evs = Raise e d'" by simp
    from Cons.IH[OF this] step[of d1] Done show ?thesis by simp
  qed
qed

lemma reachable_hosts_ok:
  "hosts_ok (state_of (run (CoResidencyDetector_init cfg) evs))"
proof -
  have "hosts_ok (CoResidencyDetector_init cfg)" by (simp add: hosts_ok_def CoResidencyDetector_init_def)
  then show ?thesis using run_ok[of "CoResidencyDetector_init cfg" evs]
    by (cases "run (CoResidencyDetector_init cfg) evs") (auto simp: state_of_def)
qed

section \<open>A batch without hosts\<close>










section \<open>Flags and deflags\<close>

lemma trigger_flag_all_exceed:
  "trigger_flag ds th = Inr t \<Longrightarrow> t = all_exceed ds th"
proof (induction ds)
  case Nil
  then show ?case by (auto simp: all_exceed_def)
next
  case (Cons mv ds)
  obtain m v where mv: "mv = (m, v)" by (cases mv)
  from Cons show ?case
    by (auto simp: mv all_exceed_def split: option.splits if_splits)
qed

lemma trigger_flag_total:
  "list_all (\<lambda>(m, v). case map_of th m of None \<Rightarrow> False | Some t \<Rightarrow> True) ds \<Longrightarrow> \<exists>t. trigger_flag ds th = Inr t"
proof (induction ds)
  case Nil
  show ?case by (rule exI[of _ True]) simp
next
  case (Cons mv ds)
  obtain m v where mv: "mv = (m, v)" by (cases mv)
  from Cons show ?case by (auto simp: mv split: option.splits)
qed

lemma counters_flag_host_other:
  "k' \<noteq> k \<Longrightarrow> counters (flag_host k t d) k' = counters d k'"
  by (auto simp: counters_def flag_host_def increment_def update_conv' split: option.splits)

lemma counters_flag_host_same:
  "active h \<Longrightarrow> counters (flag_host k (all_exceed (deltas h) (Thresholds (configuration d))) d) k
     = flag_rule k h d"
  by (auto simp: counters_def flag_host_def flag_rule_def increment_def bumped_def update_conv'
        split: option.splits)

lemma flag_rule_cong:
  "counters d1 k = counters d k \<Longrightarrow> mitigated_host_ids d1 = mitigated_host_ids d \<Longrightarrow>
   configuration d1 = configuration d \<Longrightarrow> flag_rule k h d1 = flag_rule k h d"
  by (auto simp: flag_rule_def split: prod.splits)

lemma flags_each_rule:
  "distinct (map fst hs) \<Longrightarrow> flags_each hs d = Done d' \<Longrightarrow>
   (\<forall>k. k \<notin> fst ` set hs \<longrightarrow> counters d' k = counters d k) \<and>
   (\<forall>(k, h) \<in> set hs. counters d' k = flag_rule k h d)"
proof (induction hs arbitrary: d)
  case Nil
  then show ?case by simp
next
  case (Cons kh hs)
  obtain k h where kh: "kh = (k, h)" by (cases kh)
  from Cons.prems(1) kh have dist: "distinct (map fst hs)" and knew: "k \<notin> fst ` set hs" by auto
  show ?case
  proof (cases "active h")
    case False
    with Cons.prems(2) kh have run: "flags_each hs d = Done d'" by simp
    from Cons.IH[OF dist run] have ih: "\<forall>k. k \<notin> fst ` set hs \<longrightarrow> counters d' k = counters d k"
      "\<forall>(k, h) \<in> set hs. counters d' k = flag_rule k h d" by simp_all
    from ih(1) knew have "counters d' k = counters d k" by simp
    then have "counters d' k = flag_rule k h d" using False by (simp add: flag_rule_def split: prod.splits)
    with ih show ?thesis by (auto simp: kh)
  next
    case True
    from Cons.prems(2) kh True obtain t where t: "trigger_flag (deltas h) (Thresholds (configuration d)) = Inr t"
      and run: "flags_each hs (flag_host k t d) = Done d'"
      by (auto split: sum.splits)
    from trigger_flag_all_exceed[OF t] have tt: "t = all_exceed (deltas h) (Thresholds (configuration d))" .
    define d1 where "d1 = flag_host k t d"
    from Cons.IH[OF dist run[folded d1_def]]
    have ih: "\<forall>k. k \<notin> fst ` set hs \<longrightarrow> counters d' k = counters d1 k"
      "\<forall>(k, h) \<in> set hs. counters d' k = flag_rule k h d1" by simp_all
    have same: "counters d1 k = flag_rule k h d"
      unfolding d1_def tt by (rule counters_flag_host_same[OF True])
    have other: "k' \<noteq> k \<Longrightarrow> counters d1 k' = counters d k'" for k'
      unfolding d1_def by (rule counters_flag_host_other)
    have fr: "mitigated_host_ids d1 = mitigated_host_ids d" "configuration d1 = configuration d"
      unfolding d1_def by (simp_all add: flag_host_frame)
    have a: "\<forall>k'. k' \<notin> fst ` set (kh # hs) \<longrightarrow> counters d' k' = counters d k'"
      using ih(1) other by (auto simp: kh)
    have b: "counters d' k = flag_rule k h d" using ih(1) knew same by simp
    have c: "counters d' k' = flag_rule k' h' d" if "(k', h') \<in> set hs" for k' h'
    proof -
      from that knew have ne: "k' \<noteq> k" by force
      from ih(2) that have "counters d' k' = flag_rule k' h' d1" by auto
      also have "\<dots> = flag_rule k' h' d" using flag_rule_cong[OF other[OF ne] fr] .
      finally show ?thesis .
    qed
    from a b c show ?thesis by (auto simp: kh)
  qed
qed

lemma flags_each_total:
  "list_all (\<lambda>(host_id, h). active h \<longrightarrow> list_all (\<lambda>(m, v). case map_of th m of None \<Rightarrow> False | Some t \<Rightarrow> True) (deltas h)) hs \<Longrightarrow>
   Thresholds (configuration d) = th \<Longrightarrow> \<exists>d'. flags_each hs d = Done d'"
proof (induction hs arbitrary: d)
  case Nil
  then show ?case by simp
next
  case (Cons kh hs)
  obtain k h where kh: "kh = (k, h)" by (cases kh)
  show ?case
  proof (cases "active h")
    case False
    with Cons show ?thesis by (simp add: kh)
  next
    case True
    with Cons.prems kh have "list_all (\<lambda>(m, v). case map_of th m of None \<Rightarrow> False | Some t \<Rightarrow> True) (deltas h)" by simp
    from trigger_flag_total[OF this] obtain t where t: "trigger_flag (deltas h) th = Inr t" by blast
    have "Thresholds (configuration (flag_host k t d)) = th" using Cons.prems(2) by (simp add: flag_host_frame)
    from Cons.IH[OF _ this] Cons.prems(1) obtain d' where "flags_each hs (flag_host k t d) = Done d'" by auto
    with True t Cons.prems(2) show ?thesis by (simp add: kh)
  qed
qed

text \<open>
  C6, as amended. Phase (d) runs to completion when every delta metric of every active
  host has a threshold. Whenever it runs to completion, every tracked host has the
  counters the rule gives it: an active host whose deltas all exceed their thresholds has
  its deflags set to 0 if it is mitigated and its flags incremented (1 when absent) if it
  is not; an active mitigated host with a delta that does not exceed has its deflags
  incremented (1 when absent); any other host, and any host that is not active, keeps both
  counters. Counters of untracked hosts, the mitigated set and the hosts stay as they were.
\<close>

theorem C6_flag_rule:
  assumes "distinct (map fst (host_metrics d))"
  shows "(thresholds_cover d \<longrightarrow> (\<exists>d'. update_host_flags d = Done d')) \<and>
     (\<forall>d'. update_host_flags d = Done d' \<longrightarrow>
        (\<forall>(host_id, h) \<in> set (host_metrics d). counters d' host_id = flag_rule host_id h d) \<and>
        (\<forall>host_id. host_id \<notin> fst ` set (host_metrics d) \<longrightarrow> counters d' host_id = counters d host_id) \<and>
        mitigated_host_ids d' = mitigated_host_ids d \<and> host_metrics d' = host_metrics d)"
proof (intro conjI impI allI)
  assume "thresholds_cover d"
  then show "\<exists>d'. update_host_flags d = Done d'"
    using flags_each_total[of "Thresholds (configuration d)" "host_metrics d" d]
    by (simp add: thresholds_cover_def update_host_flags_def)
next
  fix d' assume r: "update_host_flags d = Done d'"
  then have f: "flags_each (host_metrics d) d = Done d'" by (simp add: update_host_flags_def)
  from flags_each_rule[OF assms f]
  show "\<forall>(host_id, h) \<in> set (host_metrics d). counters d' host_id = flag_rule host_id h d" by simp
next
  fix d' host_id assume r: "update_host_flags d = Done d'" and n: "host_id \<notin> fst ` set (host_metrics d)"
  then have f: "flags_each (host_metrics d) d = Done d'" by (simp add: update_host_flags_def)
  from flags_each_rule[OF assms f] n show "counters d' host_id = counters d host_id" by simp
next
  fix d' assume r: "update_host_flags d = Done d'"
  then have "flags_each (host_metrics d) d = Done d' \<or> flags_each (host_metrics d) d = Raise IndexError d'"
    by (simp add: update_host_flags_def)
  from flags_each_frame[OF this]
  show "mitigated_host_ids d' = mitigated_host_ids d" and "host_metrics d' = host_metrics d" by simp_all
qed

theorem C6_flag_rule_witness:
  "distinct (map fst (host_metrics flagged_state)) \<and> thresholds_cover flagged_state \<and>
   update_host_flags flagged_state = Done (state_of (update_host_flags flagged_state)) \<and>
   counters flagged_state ''A'' = (Some 1, None) \<and>
   counters (state_of (update_host_flags flagged_state)) ''A'' = (Some 2, None) \<and>
   counters (state_of (update_host_flags flagged_state)) ''B'' = (Some 2, None) \<and>
   counters (state_of (update_host_flags flagged_state)) ''C'' = (None, None)"
  using C6_flag_rule [of flagged_state]
  by (simp add: flagged_state_def thresholds_cover_def counters_def flag_rule_def all_exceed_def
        bumped_def run_defs detector_defs host_defs)

text \<open>
  C6 as stated fails: host B is active and not mitigated, its only delta has a threshold
  and exceeds it, yet its flag counter is not created, because the phase ends with KeyError
  at host A, which is visited first and has a delta without a threshold.
\<close>

theorem C6_flag_rule_counterexample:
  "raised (update_host_flags uncovered_state) = Some KeyError \<and>
   map_option (\<lambda>h. (active h, deltas h)) (map_of (host_metrics uncovered_state) ''B'')
     = Some (True, [(''Activity'', 1 / 3)]) \<and>
   Thresholds (configuration uncovered_state) = [(''Activity'', 0)] \<and>
   ''B'' \<notin> mitigated_host_ids uncovered_state \<and>
   counters uncovered_state ''B'' = (None, None) \<and>
   counters (state_of (update_host_flags uncovered_state)) ''B'' = (None, None)"
  by (simp add: uncovered_state_def counters_def run_defs detector_defs host_defs)

section \<open>Host ids stay distinct\<close>

text \<open>
  Every handler keeps the keys of the host dictionary distinct, so they are distinct in
  every state the detector reaches from its construction.
\<close>

lemma new_host_distinct:
  "new_host k s d = Done d' \<or> new_host k s d = Raise e d' \<Longrightarrow> distinct_hosts d \<Longrightarrow> distinct_hosts d'"
  by (auto simp: new_host_def distinct_hosts_def distinct_update split: sum.splits)

lemma record_host_distinct:
  assumes "record_host k s d = Done d' \<or> record_host k s d = Raise e d'" and "distinct_hosts d"
  shows "distinct_hosts d'"
proof (cases "map_of (host_metrics d) k")
  case None
  with assms(1) have "new_host k s d = Done d' \<or> new_host k s d = Raise e d'" by (simp add: record_host_def)
  from new_host_distinct[OF this assms(2)] show ?thesis .
next
  case (Some h)
  show ?thesis
  proof (cases "record_sample h s")
    case (Done h1)
    with assms Some show ?thesis by (auto simp: record_host_def distinct_hosts_def distinct_update)
  next
    case (Raise e1 h1)
    define d1 where "d1 = d\<lparr>host_metrics := AList.update k h1 (host_metrics d)\<rparr>"
    have okd1: "distinct_hosts d1" using assms(2) by (simp add: d1_def distinct_hosts_def distinct_update)
    show ?thesis
    proof (cases "e1 = KeyError")
      case True
      with assms(1) Some Raise have "new_host k s d1 = Done d' \<or> new_host k s d1 = Raise e d'"
        by (simp add: record_host_def d1_def Let_def)
      from new_host_distinct[OF this okd1] show ?thesis .
    next
      case False
      with assms(1) Some Raise have "d' = d1" by (simp add: record_host_def d1_def Let_def)
      with okd1 show ?thesis by simp
    qed
  qed
qed

lemma record_hosts_distinct:
  "record_hosts batch d = Done d' \<or> record_hosts batch d = Raise e d' \<Longrightarrow> distinct_hosts d \<Longrightarrow>
   distinct_hosts d'"
proof (induction batch arbitrary: d)
  case Nil
  then show ?case by auto
next
  case (Cons ks batch)
  obtain k s where ks: "ks = (k, s)" by (cases ks)
  show ?case
  proof (cases "record_host k s d")
    case (Raise e1 d1)
    with Cons.prems(1) ks have "d' = d1" by simp
    with record_host_distinct[OF _ Cons.prems(2), of k s d1 e1] Raise show ?thesis by simp
  next
    case (Done d1)
    with record_host_distinct[OF _ Cons.prems(2), of k s d1] have d1: "distinct_hosts d1" by simp
    from Cons.prems(1) ks Done have "record_hosts batch d1 = Done d' \<or> record_hosts batch d1 = Raise e d'" by simp
    from Cons.IH[OF this d1] show ?thesis .
  qed
qed

lemma deltas_rel_keys:
  "list_all2 (\<lambda>(k, h) (k', h'). k' = k \<and> (\<exists>dl. h' = h\<lparr>deltas := dl\<rparr>)) hs hs' \<Longrightarrow>
   map fst hs' = map fst hs"
  by (induction rule: list_all2_induct) auto

lemma update_metrics_distinct:
  assumes "update_metrics d batch = Done d' \<or> update_metrics d batch = Raise e d'" and "distinct_hosts d"
  shows "distinct_hosts d'"
proof (cases "record_hosts batch d")
  case (Raise e1 d1)
  with assms(1) have "d' = d1" by (simp add: update_metrics_def)
  with record_hosts_distinct[of batch d d1 e1] Raise assms(2) show ?thesis by simp
next
  case (Done d1)
  with record_hosts_distinct[of batch d d1] assms(2) have ok1: "distinct_hosts d1" by simp
  from assms(1) Done have "after_recording d1 = Done d' \<or> after_recording d1 = Raise e d'"
    by (simp add: update_metrics_def)
  from after_recording_frame[OF this] have "map fst (host_metrics d') = map fst (host_metrics d1)"
    using deltas_rel_keys by blast
  with ok1 show ?thesis by (simp add: distinct_hosts_def)
qed

lemma reconfigure_each_keys:
  "reconfigure_each cfg hs = Done hs' \<or> reconfigure_each cfg hs = Raise e hs' \<Longrightarrow>
   map fst hs' = map fst hs"
proof (induction hs arbitrary: hs' e)
  case Nil
  then show ?case by auto
next
  case (Cons kh hs)
  obtain k h where kh: "kh = (k, h)" by (cases kh)
  show ?case
  proof (cases "reconfigure h (MaxSamples cfg) (SamplesBeforeInclusion cfg) (SamplesBeforeExclusion cfg) (NormalizeSamples cfg)")
    case (Raise e1 h1)
    with Cons.prems(1) kh show ?thesis by auto
  next
    case (Done h1)
    note d1 = this
    show ?thesis
    proof (cases "reconfigure_each cfg hs")
      case (Raise e2 r)
      with Cons.prems(1) kh d1 have "hs' = (k, h1) # r" by simp
      with Cons.IH[of r e2] Raise show ?thesis by (simp add: kh)
    next
      case (Done r)
      with Cons.prems(1) kh d1 have "hs' = (k, h1) # r" by simp
      with Cons.IH[of r e] Done show ?thesis by (simp add: kh)
    qed
  qed
qed

lemma update_config_distinct:
  assumes "update_config d cfg = Done d' \<or> update_config d cfg = Raise e d'" and "distinct_hosts d"
  shows "distinct_hosts d'"
proof -
  from assms(1) obtain hs where "reconfigure_each cfg (host_metrics d) = Done hs \<or>
      reconfigure_each cfg (host_metrics d) = Raise e hs" and "host_metrics d' = hs"
    by (auto simp: update_config_def split: outcome.splits)
  with reconfigure_each_keys[of cfg "host_metrics d" hs e] assms(2) show ?thesis
    by (simp add: distinct_hosts_def)
qed

lemma run_distinct:
  "run d evs = Done d' \<or> run d evs = Raise e d' \<Longrightarrow> distinct_hosts d \<Longrightarrow> distinct_hosts d'"
proof (induction evs arbitrary: d)
  case Nil
  then show ?case by auto
next
  case (Cons ev evs)
  have step: "handle d ev = Done d1 \<or> handle d ev = Raise e1 d1 \<Longrightarrow> distinct_hosts d1" for d1 e1
    using update_metrics_distinct[OF _ Cons.prems(2)] update_config_distinct[OF _ Cons.prems(2)]
    by (cases ev) auto
  show ?case
  proof (cases "handle d ev")
    case (Raise e1 d1)
    with Cons.prems(1) have "d' = d1" by simp
    with step[of d1 e1] Raise show ?thesis by simp
  next
    case (Done d1)
    with Cons.prems(1) have "run d1 evs = Done d' \<or> run d1 evs = Raise e d'" by simp
    from Cons.IH[OF this] step[of d1] Done show ?thesis by simp
  qed
qed

lemma reachable_distinct_hosts:
  "distinct (map fst (host_metrics (state_of (run (CoResidencyDetector_init cfg) evs))))"
proof -
  have "distinct_hosts (CoResidencyDetector_init cfg)"
    by (simp add: distinct_hosts_def CoResidencyDetector_init_def)
  then show ?thesis using run_distinct[of "CoResidencyDetector_init cfg" evs]
    by (cases "run (CoResidencyDetector_init cfg) evs") (auto simp: state_of_def distinct_hosts_def)
qed

section \<open>A sample with an unknown metric name\<close>







end
